theory Spec2Isabelle
  imports Complex_Main "HOL-Library.Multiset" "HOL-Library.Product_Lexorder"
begin

section \<open>The generalised Hopfield method of \<^verbatim>\<open>legume/pol/pol.py\<close>\<close>

text \<open>
  Numbers are exact: a Python float is a \<^typ>\<open>real\<close>, a complex float a \<^typ>\<open>complex\<close>.
  Rounding, \<^verbatim>\<open>nan\<close> and \<^verbatim>\<open>inf\<close> are outside this model.
  A two-dimensional array is the list of its rows; the arrays built here are rectangular
  by construction. A one-dimensional array is a list.
\<close>

type_synonym cvec = "complex list"
type_synonym cmat = "complex list list"

datatype py_error = IndexError | ValueError | NameError | AttributeError

subsection \<open>The photonic crystal\<close>

text \<open>What the layer index lookup reads of a crystal: the upper boundaries of its layers.\<close>

record layer =
  z_max :: real

record phot_cryst =
  claddings :: "layer list"
  layers :: "layer list"

subsection \<open>Fractions: \<^verbatim>\<open>_calculate_fraction\<close>\<close>

text \<open>The Python slice \<^verbatim>\<open>xs[a:b]\<close> for \<open>0 \<le> a\<close> and \<open>0 \<le> b\<close>; it clips at the end.\<close>

definition py_slice :: "nat \<Rightarrow> nat \<Rightarrow> 'a list \<Rightarrow> 'a list" where
  "py_slice a b xs = drop a (take b xs)"

text \<open>\<^verbatim>\<open>np.shape(m)[1]\<close>; an array without rows is taken to have no columns.\<close>

definition ncols :: "'a list list \<Rightarrow> nat" where
  "ncols m = (case m of [] \<Rightarrow> 0 | r # _ \<Rightarrow> length r)"

text \<open>\<^verbatim>\<open>np.sum(np.abs(eigenvectors[a:b, band])**2)\<close> and the same with an open end.\<close>

definition abs2_sum :: "cmat \<Rightarrow> nat \<Rightarrow> nat \<Rightarrow> nat \<Rightarrow> real" where
  "abs2_sum eigenvectors a b band =
     sum_list (map (\<lambda>r. (cmod (r ! band))\<^sup>2) (py_slice a b eigenvectors))"

definition abs2_sum_from :: "cmat \<Rightarrow> nat \<Rightarrow> nat \<Rightarrow> real" where
  "abs2_sum_from eigenvectors a band =
     sum_list (map (\<lambda>r. (cmod (r ! band))\<^sup>2) (drop a eigenvectors))"

text \<open>
  \<^verbatim>\<open>_calculate_fraction\<close>: the loop over the bands writes one entry of each of the two
  result arrays per iteration. The result is \<^verbatim>\<open>(frac_ex, frac_ph)\<close>.
\<close>

definition calculate_fraction :: "nat \<Rightarrow> nat \<Rightarrow> nat \<Rightarrow> cmat \<Rightarrow> real list \<times> real list" where
  "calculate_fraction N_max M_max num_QWs eigenvectors =
     (let num_bands = ncols eigenvectors;
          frac_ex = replicate num_bands 0;
          frac_ph = replicate num_bands 0
      in fold (\<lambda>band (frac_ex, frac_ph).
           (let frac_ph = frac_ph[band :=
                  abs2_sum eigenvectors 0 N_max band
                  + abs2_sum eigenvectors (N_max + M_max * num_QWs)
                      (2 * N_max + M_max * num_QWs) band];
                frac_ex = frac_ex[band :=
                  abs2_sum eigenvectors N_max (N_max + M_max * num_QWs) band
                  + abs2_sum_from eigenvectors (2 * N_max + M_max * num_QWs) band]
            in (frac_ex, frac_ph)))
         [0..<num_bands] (frac_ex, frac_ph))"

subsection \<open>Arrays\<close>

definition zeros :: "nat \<Rightarrow> nat \<Rightarrow> cmat" where
  "zeros r c = replicate r (replicate c 0)"

definition eye :: "nat \<Rightarrow> cmat" where
  "eye n = map (\<lambda>i. (replicate n 0)[i := 1]) [0..<n]"

definition mat_add :: "cmat \<Rightarrow> cmat \<Rightarrow> cmat" where
  "mat_add A B = map2 (map2 (+)) A B"

definition mat_scale :: "complex \<Rightarrow> cmat \<Rightarrow> cmat" where
  "mat_scale k A = map (map ((*) k)) A"

definition mat_neg :: "cmat \<Rightarrow> cmat" where
  "mat_neg A = map (map uminus) A"

text \<open>\<^verbatim>\<open>bd.real\<close> of an array, read again as a complex array when it is added to one.\<close>

definition mat_real :: "cmat \<Rightarrow> cmat" where
  "mat_real A = map (map (\<lambda>x. complex_of_real (Re x))) A"

definition mat_conjugate :: "cmat \<Rightarrow> cmat" where
  "mat_conjugate A = map (map cnj) A"

text \<open>\<^verbatim>\<open>A.T\<close>; an array without rows is taken to have no columns.\<close>

definition mat_T :: "cmat \<Rightarrow> cmat" where
  "mat_T A = map (\<lambda>j. map (\<lambda>r. r ! j) A) [0..<ncols A]"

text \<open>
  \<^verbatim>\<open>np.fill_diagonal(A, vals)\<close> for an array of values: the values are written along the
  diagonal, repeated from the start when they run out.
\<close>

definition fill_diagonal :: "cmat \<Rightarrow> cvec \<Rightarrow> cmat" where
  "fill_diagonal A vals = map (\<lambda>i. (A ! i)[i := vals ! (i mod length vals)]) [0..<length A]"

text \<open>
  Blocks side by side, row by row; \<^verbatim>\<open>np.hstack\<close> and \<^verbatim>\<open>np.vstack\<close> raise \<^verbatim>\<open>ValueError\<close> on an empty sequence and on
  blocks whose row counts (column counts) differ.
\<close>

definition hcat :: "cmat list \<Rightarrow> cmat" where
  "hcat ms = map (\<lambda>i. concat (map (\<lambda>m. m ! i) ms)) [0..<length (hd ms)]"

definition hstack :: "cmat list \<Rightarrow> py_error + cmat" where
  "hstack ms =
     (case ms of
        [] \<Rightarrow> Inl ValueError
      | m0 # _ \<Rightarrow>
          if list_all (\<lambda>m. length m = length m0) ms
          then Inr (hcat ms)
          else Inl ValueError)"

definition vstack :: "cmat list \<Rightarrow> py_error + cmat" where
  "vstack ms =
     (case ms of
        [] \<Rightarrow> Inl ValueError
      | m0 # _ \<Rightarrow>
          if list_all (\<lambda>m. ncols m = ncols m0) ms
          then Inr (concat ms)
          else Inl ValueError)"

text \<open>Sequencing of steps that may raise.\<close>

definition bind_err :: "py_error + 'a \<Rightarrow> ('a \<Rightarrow> py_error + 'b) \<Rightarrow> py_error + 'b" where
  "bind_err r f = (case r of Inl e \<Rightarrow> Inl e | Inr x \<Rightarrow> f x)"

text \<open>\<^verbatim>\<open>np.dot(v, E)\<close> of a vector and a two-dimensional array: the sum runs over the rows of \<open>E\<close>.\<close>

definition np_dot :: "cvec \<Rightarrow> cmat \<Rightarrow> cvec" where
  "np_dot v E = map (\<lambda>g. sum_list (map2 (\<lambda>x r. x * r ! g) v E)) [0..<ncols E]"

text \<open>\<^verbatim>\<open>str.lower\<close> on ASCII.\<close>

definition lower_char :: "char \<Rightarrow> char" where
  "lower_char ch =
     (let n = (of_char ch :: nat) in if 65 \<le> n \<and> n \<le> 90 then char_of (n + 32) else ch)"

definition lower :: "string \<Rightarrow> string" where
  "lower s = map lower_char s"

subsection \<open>The two mode providers and the constants\<close>

text \<open>
  \<^verbatim>\<open>legume.constants\<close>, \<^verbatim>\<open>GuidedModeExp\<close> and \<^verbatim>\<open>ExcitonSchroedEq\<close> are not part of the
  sources at hand: the constants are parameters, and a provider is the record of what the
  Hopfield code reads from it after it has run. An array indexed by the k-point first is a
  function of the k-point index.
\<close>

record constants =
  cs_hbar :: real
  cs_e :: real
  cs_m_e :: real
  cs_epsilon_0 :: real
  cs_h_eV_Hz :: real
  cs_c :: real

record guided_mode_exp =
  gme_numeig :: nat
  gme_symmetry :: string
  gme_freqs :: "nat \<Rightarrow> real list"
  gme_freqs_im :: "nat \<Rightarrow> real list"
  gme_freqs_odd :: "nat \<Rightarrow> real list"
  gme_freqs_im_odd :: "nat \<Rightarrow> real list"
  gme_freqs_even :: "nat \<Rightarrow> real list"
  gme_freqs_im_even :: "nat \<Rightarrow> real list"
  gme_ft_field_xy :: "string \<Rightarrow> nat \<Rightarrow> nat \<Rightarrow> real \<Rightarrow> cmat"

record exciton_schroed_eq =
  exc_a :: real
  exc_z :: real
  exc_osc_str :: cvec
  exc_eners :: "nat \<Rightarrow> cvec"
  exc_numeig_ex :: nat
  exc_ft_wavef_xy :: "nat \<Rightarrow> nat \<Rightarrow> cvec"

text \<open>The attributes of a \<^verbatim>\<open>HopfieldPol\<close> object that the methods below read and write.\<close>

record hopfield_pol =
  self_gme :: guided_mode_exp
  self_exc_list :: "exciton_schroed_eq list"
  self_a :: real
  self_num_QWs :: nat
  self_N_max :: nat
  self_M_max :: nat
  self_numeig :: nat
  self_kpoints :: "(real \<times> real) list"
  self_eners :: "real list list"
  self_eners_im :: "real list list"
  self_eigvecs :: "cmat list"
  self_fractions_ex :: "real list list"
  self_fractions_ph :: "real list list"
  self_mat :: cmat
  self_phc :: "phot_cryst option"
  self_N_layers :: "nat option"

text \<open>
  The last two are the attributes \<^verbatim>\<open>self.phc\<close> and \<^verbatim>\<open>self.N_layers\<close>, which
  \<^verbatim>\<open>_z_to_lind\<close> reads: \<open>None\<close> is an attribute that the object does not have, and reading
  it raises \<^verbatim>\<open>AttributeError\<close>. The attributes before them are assigned by \<^verbatim>\<open>run\<close> and
  by \<^verbatim>\<open>_construct_Hopfield\<close> before any method reads them.
\<close>

subsection \<open>The constructor\<close>

text \<open>
  \<^verbatim>\<open>__init__\<close> assigns \<^verbatim>\<open>self.gme\<close> and \<^verbatim>\<open>self.exc_list\<close>, and nothing else. The
  constructors of the two providers are not part of the sources at hand, so the providers
  that \<^verbatim>\<open>__init__\<close> builds are the arguments here. (To place a quantum well in its layer,
  \<^verbatim>\<open>__init__\<close> calls the lookup of the photonic provider, \<^verbatim>\<open>self.gme._z_to_lind\<close>, not
  the method of this class.)
\<close>

definition HopfieldPol_init :: "guided_mode_exp \<Rightarrow> exciton_schroed_eq list \<Rightarrow> hopfield_pol" where
  "HopfieldPol_init gme excs =
     \<lparr>self_gme = gme, self_exc_list = excs, self_a = 0, self_num_QWs = 0,
      self_N_max = 0, self_M_max = 0, self_numeig = 0, self_kpoints = [], self_eners = [],
      self_eners_im = [], self_eigvecs = [], self_fractions_ex = [], self_fractions_ph = [],
      self_mat = [], self_phc = None, self_N_layers = None\<rparr>"

subsection \<open>Layer index lookup: \<^verbatim>\<open>_z_to_lind\<close>\<close>

text \<open>
  The \<^verbatim>\<open>while\<close> loop of \<^verbatim>\<open>_z_to_lind\<close>. The loop state is \<^verbatim>\<open>(z_max, lind)\<close>. The
  condition \<^verbatim>\<open>z > z_max and lind < self.N_layers\<close> reads \<^verbatim>\<open>self.N_layers\<close> only when
  \<^verbatim>\<open>z > z_max\<close> holds; \<^verbatim>\<open>self.phc.layers[lind - 1]\<close> raises \<^verbatim>\<open>IndexError\<close> past the end
  of the list (\<^verbatim>\<open>lind - 1\<close> is never negative there).
\<close>

function z_to_lind_loop :: "layer list \<Rightarrow> nat option \<Rightarrow> real \<Rightarrow> real \<Rightarrow> nat \<Rightarrow> py_error + (real \<times> nat)" where
  "z_to_lind_loop ls N_layers z zm lind =
     (if z > zm then
        (case N_layers of
           None \<Rightarrow> Inl AttributeError
         | Some N \<Rightarrow>
             if lind < N then
               (let lind' = lind + 1 in
                if lind' - 1 < length ls
                then z_to_lind_loop ls N_layers z (z_max (ls ! (lind' - 1))) lind'
                else Inl IndexError)
             else Inr (zm, lind))
      else Inr (zm, lind))"
  by pat_completeness auto
termination
  by (relation "measure (\<lambda>(ls, N_layers, z, zm, lind).
        case N_layers of None \<Rightarrow> 0 | Some N \<Rightarrow> N - lind)") auto

declare z_to_lind_loop.simps [simp del]

text \<open>
  \<^verbatim>\<open>_z_to_lind\<close>: the first line reads \<^verbatim>\<open>self.phc\<close>, then \<^verbatim>\<open>claddings[0]\<close>; after the
  loop, \<^verbatim>\<open>z > z_max and lind == self.N_layers\<close> reads \<^verbatim>\<open>self.N_layers\<close> only when
  \<^verbatim>\<open>z > z_max\<close> holds.
\<close>

definition z_to_lind :: "hopfield_pol \<Rightarrow> real \<Rightarrow> py_error + nat" where
  "z_to_lind self z =
     (case self_phc self of
        None \<Rightarrow> Inl AttributeError
      | Some phc \<Rightarrow>
         (case claddings phc of
            [] \<Rightarrow> Inl IndexError
          | c0 # _ \<Rightarrow>
             (case z_to_lind_loop (layers phc) (self_N_layers self) z (z_max c0) 0 of
                Inl e \<Rightarrow> Inl e
              | Inr (zm, lind) \<Rightarrow>
                  if z > zm
                  then (case self_N_layers self of
                          None \<Rightarrow> Inl AttributeError
                        | Some N \<Rightarrow> Inr (if lind = N then lind + 1 else lind))
                  else Inr lind)))"

text \<open>
  The upper boundary of the layer with index \<open>i\<close>, claddings included: index \<open>0\<close> is the
  lower cladding, index \<open>i\<close> with \<open>1 \<le> i\<close> is \<^verbatim>\<open>layers[i - 1]\<close>.
\<close>

definition upper_boundary :: "phot_cryst \<Rightarrow> nat \<Rightarrow> real" where
  "upper_boundary phc i =
     (if i = 0 then z_max (hd (claddings phc)) else z_max (layers phc ! (i - 1)))"

subsection \<open>Coupling Block Builder: \<^verbatim>\<open>_calculate_C_D\<close>\<close>

definition pref :: "constants \<Rightarrow> hopfield_pol \<Rightarrow> complex" where
  "pref cs self =
     - \<i> * complex_of_real (sqrt ((cs_hbar cs)\<^sup>2 * (cs_e cs)\<^sup>2 / (4 * cs_m_e cs * cs_epsilon_0 cs)))
       / complex_of_real (cs_e cs) / complex_of_real (sqrt (self_a self))"

text \<open>\<^verbatim>\<open>np.sqrt(exc.osc_str.astype(float))\<close>: the cast keeps the real part.\<close>

definition sqrt_osc_str :: "exciton_schroed_eq \<Rightarrow> cvec" where
  "sqrt_osc_str exc = map (\<lambda>x. complex_of_real (sqrt (Re x))) (exc_osc_str exc)"

text \<open>The right-hand side of the assignment to \<^verbatim>\<open>C[n, nu]\<close>.\<close>

definition C_entry :: "constants \<Rightarrow> hopfield_pol \<Rightarrow> exciton_schroed_eq \<Rightarrow> cmat \<Rightarrow> cvec \<Rightarrow> complex" where
  "C_entry cs self exc E_comp W_comp =
     pref cs self * sum_list (map2 (*) (np_dot (sqrt_osc_str exc) E_comp) (map cnj W_comp))"

text \<open>The right-hand side of the assignment to \<^verbatim>\<open>D[n_1, n_2]\<close>.\<close>

definition D_entry :: "cvec \<Rightarrow> cvec \<Rightarrow> cvec \<Rightarrow> complex" where
  "D_entry C1 C2 en =
     sum_list (map2 (\<lambda>p x. p / complex_of_real (Re x)) (map2 (*) (map cnj C1) C2) en)"

definition calculate_C_D :: "constants \<Rightarrow> hopfield_pol \<Rightarrow> exciton_schroed_eq \<Rightarrow> nat \<Rightarrow> cmat \<times> cmat" where
  "calculate_C_D cs self exc kind =
     (let C = zeros (self_N_max self) (self_M_max self);
          C = fold (\<lambda>n C.
                (let E_comp = gme_ft_field_xy (self_gme self) ''E'' kind n (exc_z exc)
                 in fold (\<lambda>nu C.
                      (let W_comp = exc_ft_wavef_xy exc kind nu
                       in C[n := (C ! n)[nu := C_entry cs self exc E_comp W_comp]]))
                    [0..<self_M_max self] C))
              [0..<self_N_max self] C;
          D = zeros (self_N_max self) (self_N_max self);
          D = fold (\<lambda>n_1 D.
                fold (\<lambda>n_2 D.
                  D[n_1 := (D ! n_1)[n_2 := D_entry (C ! n_1) (C ! n_2) (exc_eners exc kind)]])
                  [0..<self_N_max self] D)
              [0..<self_N_max self] D
      in (C, D))"

subsection \<open>Hopfield Matrix Assembler: \<^verbatim>\<open>_construct_Hopfield\<close>\<close>

text \<open>\<^verbatim>\<open>freqs[kind, :] * conv_fact + 1j * freqs_im[kind, :] * conv_fact\<close>\<close>

definition phot_energies :: "real \<Rightarrow> real list \<Rightarrow> real list \<Rightarrow> cvec" where
  "phot_energies conv_fact fr fr_im =
     map2 (\<lambda>f g. complex_of_real (f * conv_fact) + \<i> * complex_of_real g * complex_of_real conv_fact)
       fr fr_im"

text \<open>
  The loop over the quantum wells. Its state is \<^verbatim>\<open>(C_blocks, D_final_block, D)\<close>, where
  \<^verbatim>\<open>D\<close> is the local variable that each pass assigns and that is unbound before the
  first one.
\<close>

fun qw_loop :: "constants \<Rightarrow> hopfield_pol \<Rightarrow> nat \<Rightarrow> (nat \<times> exciton_schroed_eq) list
    \<Rightarrow> cmat list \<times> cmat \<times> cmat option \<Rightarrow> py_error + (cmat list \<times> cmat \<times> cmat option)" where
  "qw_loop cs self kind [] st = Inr st"
| "qw_loop cs self kind ((ind_ex, exc_sch) # rest) (C_blocks, D_final_block, D_var) =
     (let (C, D) = calculate_C_D cs self exc_sch kind;
          D_final_block = mat_add D_final_block D
      in if ind_ex < length C_blocks
         then qw_loop cs self kind rest (C_blocks[ind_ex := C], D_final_block, Some D)
         else Inl IndexError)"

text \<open>
  The photonic diagonal block before its correction: the conversion factor and the branch on
  the symmetry. With any other symmetry the block stays zero.
\<close>

definition diag_phot_bare :: "constants \<Rightarrow> hopfield_pol \<Rightarrow> nat \<Rightarrow> cmat" where
  "diag_phot_bare cs self kind =
     (let conv_fact = cs_h_eV_Hz cs * cs_c cs / self_a self;
          diag_phot = zeros (self_N_max self) (self_N_max self);
          g = self_gme self
      in if lower (gme_symmetry g) = ''none'' \<or> lower (gme_symmetry g) = ''both''
         then fill_diagonal diag_phot
                (phot_energies conv_fact (gme_freqs g kind) (gme_freqs_im g kind))
         else if lower (gme_symmetry g) = ''odd''
         then fill_diagonal diag_phot
                (phot_energies conv_fact (gme_freqs_odd g kind) (gme_freqs_im_odd g kind))
         else if lower (gme_symmetry g) = ''even''
         then fill_diagonal diag_phot
                (phot_energies conv_fact (gme_freqs_even g kind) (gme_freqs_im_even g kind))
         else diag_phot)"

text \<open>The excitonic block: the exciton energies of all quantum wells along the diagonal.\<close>

definition diag_exciton :: "hopfield_pol \<Rightarrow> nat \<Rightarrow> cmat" where
  "diag_exciton self kind =
     fill_diagonal
       (zeros (self_M_max self * self_num_QWs self) (self_M_max self * self_num_QWs self))
       (concat (map (\<lambda>exc_out. exc_eners exc_out kind) (self_exc_list self)))"

text \<open>
  The body of \<^verbatim>\<open>_construct_Hopfield\<close> once \<^verbatim>\<open>self.a\<close> is assigned: everything from the
  conversion factor to the stacking of the four block-rows. It changes no attribute.
\<close>

definition hopfield_matrix :: "constants \<Rightarrow> hopfield_pol \<Rightarrow> nat \<Rightarrow> py_error + cmat" where
  "hopfield_matrix cs self kind =
     (let C_blocks = replicate (self_num_QWs self) [];
          D_final_block = zeros (self_N_max self) (self_N_max self);
          diag_phot = diag_phot_bare cs self kind
      in bind_err (qw_loop cs self kind (enumerate 0 (self_exc_list self))
                     (C_blocks, D_final_block, None))
          (\<lambda>(C_blocks, D_final_block, D_var).
      bind_err (hstack C_blocks) (\<lambda>C_final_block.
        (let C_dagger_final_block = mat_conjugate (mat_T C_final_block);
             diag_exc = diag_exciton self kind;
             diag_phot = mat_add diag_phot (mat_scale 2 (mat_real D_final_block))
         in (case D_var of
               None \<Rightarrow> Inl NameError
             | Some D \<Rightarrow>
      bind_err (hstack [diag_phot, mat_scale (- \<i>) C_final_block, mat_scale (- 2) D,
                        mat_scale (- \<i>) C_final_block]) (\<lambda>row_0.
      bind_err (hstack [mat_scale \<i> C_dagger_final_block, diag_exc,
                        mat_scale (- \<i>) C_dagger_final_block, mat_scale 0 diag_exc]) (\<lambda>row_1.
      bind_err (hstack [mat_scale 2 D, mat_scale (- \<i>) C_final_block, mat_neg diag_phot,
                        mat_scale (- \<i>) C_final_block]) (\<lambda>row_2.
      bind_err (hstack [mat_scale (- \<i>) C_dagger_final_block, mat_scale 0 diag_exc,
                        mat_scale \<i> C_dagger_final_block, mat_neg diag_exc]) (\<lambda>row_3.
      vstack [row_0, row_1, row_2, row_3])))))))))"

text \<open>
  \<^verbatim>\<open>_construct_Hopfield\<close>: \<^verbatim>\<open>self.exc_list[0]\<close> raises \<^verbatim>\<open>IndexError\<close> on an empty list;
  otherwise the lattice constant of the first quantum well is stored in \<^verbatim>\<open>self.a\<close> and the
  matrix is built. The result is the matrix and the object.
\<close>

definition construct_Hopfield :: "constants \<Rightarrow> hopfield_pol \<Rightarrow> nat \<Rightarrow> py_error + (cmat \<times> hopfield_pol)" where
  "construct_Hopfield cs self0 kind =
     (case self_exc_list self0 of
        [] \<Rightarrow> Inl IndexError
      | exc0 # _ \<Rightarrow>
         (let self = self0\<lparr>self_a := exc_a exc0\<rparr>
          in bind_err (hopfield_matrix cs self kind) (\<lambda>M. Inr (M, self))))"

subsection \<open>Eigen-decomposition, branch filter and orchestration: \<^verbatim>\<open>run\<close>\<close>

text \<open>Indexing with a boolean mask.\<close>

definition mask_select :: "bool list \<Rightarrow> 'a list \<Rightarrow> 'a list" where
  "mask_select msk xs = map snd (filter fst (zip msk xs))"

text \<open>
  \<^verbatim>\<open>bd.argsort\<close> of a complex array: the order is by real part, then by imaginary part.
  Equal entries are kept in their order here.
\<close>

definition argsort :: "cvec \<Rightarrow> nat list" where
  "argsort xs = sort_key (\<lambda>i. (Re (xs ! i), Im (xs ! i))) [0..<length xs]"

text \<open>The Python slice \<^verbatim>\<open>xs[0:k]\<close> for an integer \<open>k\<close>, which counts from the end when negative.\<close>

definition py_slice_to :: "int \<Rightarrow> 'a list \<Rightarrow> 'a list" where
  "py_slice_to k xs = (if k < 0 then take (nat (int (length xs) + k)) xs else take (nat k) xs)"

text \<open>
  The body of the loop over the k-points, from the eigen-decomposition on. The dense solver
  \<^verbatim>\<open>bd.eig\<close> is a parameter: it returns the eigenvalues and the array whose columns are
  the eigenvectors. First the identity is added to the matrix and \<open>1\<close> is taken from the
  eigenvalues; then come the filter, the sort and the truncation. The result is
  \<^verbatim>\<open>(ener, ener_im, evec, fraction_ex, fraction_ph)\<close>.
\<close>

definition eig_shifted :: "(cmat \<Rightarrow> cvec \<times> cmat) \<Rightarrow> cmat \<Rightarrow> cvec \<times> cmat" where
  "eig_shifted eig mat =
     (let (ener2, evecs) = eig (mat_add mat (eye (length mat)));
          ener1 = map (\<lambda>x. x - 1) ener2
      in (ener1, evecs))"

definition diagonalise :: "(cmat \<Rightarrow> cvec \<times> cmat) \<Rightarrow> hopfield_pol \<Rightarrow> cmat
    \<Rightarrow> real list \<times> real list \<times> cmat \<times> real list \<times> real list" where
  "diagonalise eig self mat =
     (let (ener1, evecs) = eig_shifted eig mat;
          filt_pos = map (\<lambda>x. Re x \<ge> 0) ener1;
          ener1 = mask_select filt_pos ener1;
          evecs = map (mask_select filt_pos) evecs;
          (fractions_ex, fractions_ph) =
             calculate_fraction (self_N_max self) (self_M_max self) (self_num_QWs self) evecs;
          i_sort = py_slice_to (int (self_numeig self) div 2 - 1) (argsort ener1);
          ener = map (\<lambda>i. Re (ener1 ! i)) i_sort;
          ener_im = map (\<lambda>i. Im (ener1 ! i)) i_sort;
          evec = map (\<lambda>r. map (\<lambda>i. r ! i) i_sort) evecs;
          fraction_ex = map (\<lambda>i. fractions_ex ! i) i_sort;
          fraction_ph = map (\<lambda>i. fractions_ph ! i) i_sort
      in (ener, ener_im, evec, fraction_ex, fraction_ph))"

text \<open>
  The loop over the k-points. Its state is the object and the locals \<^verbatim>\<open>eners\<close>,
  \<^verbatim>\<open>eners_im\<close> and \<^verbatim>\<open>mat\<close>, the last one unbound before the first pass.
\<close>

fun k_loop :: "constants \<Rightarrow> (cmat \<Rightarrow> cvec \<times> cmat) \<Rightarrow> nat list
    \<Rightarrow> hopfield_pol \<times> real list list \<times> real list list \<times> cmat option
    \<Rightarrow> py_error + (hopfield_pol \<times> real list list \<times> real list list \<times> cmat option)" where
  "k_loop cs eig [] st = Inr st"
| "k_loop cs eig (ik # iks) (self, eners, eners_im, mat_var) =
     bind_err (construct_Hopfield cs self ik) (\<lambda>(mat, self).
       (let self = self\<lparr>self_numeig := length mat\<rparr>;
            (ener, ener_im, evec, fraction_ex, fraction_ph) = diagonalise eig self mat;
            self = self\<lparr>self_eigvecs := self_eigvecs self @ [evec],
                        self_fractions_ex := self_fractions_ex self @ [fraction_ex],
                        self_fractions_ph := self_fractions_ph self @ [fraction_ph]\<rparr>
        in k_loop cs eig iks (self, eners @ [ener], eners_im @ [ener_im], Some mat)))"

text \<open>
  \<^verbatim>\<open>run\<close>. The providers have been run over the k-points already (their records hold the
  outcome); \<open>kpoints\<close> is the list of the columns of the \<^verbatim>\<open>kpoints\<close> array.
\<close>

definition run :: "constants \<Rightarrow> (cmat \<Rightarrow> cvec \<times> cmat) \<Rightarrow> hopfield_pol \<Rightarrow> (real \<times> real) list
    \<Rightarrow> py_error + hopfield_pol" where
  "run cs eig self0 kpoints =
     (let self = self0\<lparr>self_kpoints := kpoints, self_eigvecs := [],
                       self_fractions_ex := [], self_fractions_ph := []\<rparr>;
          self = self\<lparr>self_num_QWs := length (self_exc_list self)\<rparr>;
          self = self\<lparr>self_N_max := gme_numeig (self_gme self)\<rparr>
      in (case self_exc_list self of
            [] \<Rightarrow> Inl IndexError
          | exc0 # _ \<Rightarrow>
             (let self = self\<lparr>self_M_max := exc_numeig_ex exc0\<rparr>
              in bind_err (k_loop cs eig [0..<length (self_kpoints self)] (self, [], [], None))
                   (\<lambda>(self, eners, eners_im, mat_var).
                      (case mat_var of
                         None \<Rightarrow> Inl NameError
                       | Some mat \<Rightarrow>
                           Inr (self\<lparr>self_eners := eners, self_eners_im := eners_im,
                                     self_mat := mat\<rparr>))))))"

text \<open>The two arrays that \<^verbatim>\<open>_calculate_C_D\<close> returns, entry by entry.\<close>

definition C_block :: "constants \<Rightarrow> hopfield_pol \<Rightarrow> exciton_schroed_eq \<Rightarrow> nat \<Rightarrow> cmat" where
  "C_block cs self exc kind =
     map (\<lambda>n. map (\<lambda>nu. C_entry cs self exc
                   (gme_ft_field_xy (self_gme self) ''E'' kind n (exc_z exc))
                   (exc_ft_wavef_xy exc kind nu))
             [0..<self_M_max self])
       [0..<self_N_max self]"

definition D_block :: "constants \<Rightarrow> hopfield_pol \<Rightarrow> exciton_schroed_eq \<Rightarrow> nat \<Rightarrow> cmat" where
  "D_block cs self exc kind =
     map (\<lambda>n_1. map (\<lambda>n_2. D_entry (C_block cs self exc kind ! n_1) (C_block cs self exc kind ! n_2)
                       (exc_eners exc kind))
               [0..<self_N_max self])
       [0..<self_N_max self]"


subsection \<open>A small configuration\<close>

text \<open>
  Constants for which the prefactor is \<open>-i\<close> at lattice constant 1, a photonic provider
  with one band at frequency 7, and quantum wells with one exciton band each.
\<close>

definition ex_cs :: constants where
  "ex_cs = \<lparr>cs_hbar = 2, cs_e = 1, cs_m_e = 1, cs_epsilon_0 = 1, cs_h_eV_Hz = 1, cs_c = 1\<rparr>"

definition ex_gme :: guided_mode_exp where
  "ex_gme = \<lparr>gme_numeig = 1, gme_symmetry = ''None'',
     gme_freqs = (\<lambda>k. [7]), gme_freqs_im = (\<lambda>k. [0]),
     gme_freqs_odd = (\<lambda>k. []), gme_freqs_im_odd = (\<lambda>k. []),
     gme_freqs_even = (\<lambda>k. []), gme_freqs_im_even = (\<lambda>k. []),
     gme_ft_field_xy = (\<lambda>f k n z. [[1]])\<rparr>"

definition ex_exc :: "complex \<Rightarrow> complex \<Rightarrow> exciton_schroed_eq" where
  "ex_exc osc en = \<lparr>exc_a = 1, exc_z = 0, exc_osc_str = [osc], exc_eners = (\<lambda>k. [en]),
     exc_numeig_ex = 1, exc_ft_wavef_xy = (\<lambda>k nu. [1])\<rparr>"

text \<open>An object as \<^verbatim>\<open>__init__\<close> leaves it, with the given quantum wells.\<close>

definition ex_pol :: "exciton_schroed_eq list \<Rightarrow> hopfield_pol" where
  "ex_pol excs = \<lparr>self_gme = ex_gme, self_exc_list = excs, self_a = 1, self_num_QWs = 0,
     self_N_max = 0, self_M_max = 0, self_numeig = 0, self_kpoints = [], self_eners = [],
     self_eners_im = [], self_eigvecs = [], self_fractions_ex = [], self_fractions_ph = [],
     self_mat = [], self_phc = None, self_N_layers = None\<rparr>"

text \<open>The same object once \<^verbatim>\<open>run\<close> has set the three counts.\<close>

definition ex_pol_run :: "exciton_schroed_eq list \<Rightarrow> hopfield_pol" where
  "ex_pol_run excs = (ex_pol excs)\<lparr>self_num_QWs := length excs, self_N_max := 1, self_M_max := 1\<rparr>"

subsection \<open>The assembled matrix in blocks\<close>

text \<open>A matrix given by its blocks: each inner list is one block-row.\<close>

definition block_matrix :: "cmat list list \<Rightarrow> cmat" where
  "block_matrix bss = concat (map hcat bss)"

text \<open>
  The four block-rows of the Hopfield matrix, from the diagonal photon block \<open>P\<close>, the
  coupling block \<open>C\<close>, the self-energy block \<open>D\<close> and the diagonal exciton block \<open>X\<close>.
\<close>

definition hopfield_blocks :: "cmat \<Rightarrow> cmat \<Rightarrow> cmat \<Rightarrow> cmat \<Rightarrow> cmat" where
  "hopfield_blocks P C D X =
     (let C_dagger = mat_conjugate (mat_T C);
          Z = zeros (length X) (length X)
      in block_matrix
           [[P, mat_scale (- \<i>) C, mat_scale (- 2) D, mat_scale (- \<i>) C],
            [mat_scale \<i> C_dagger, X, mat_scale (- \<i>) C_dagger, Z],
            [mat_scale 2 D, mat_scale (- \<i>) C, mat_neg P, mat_scale (- \<i>) C],
            [mat_scale (- \<i>) C_dagger, Z, mat_scale \<i> C_dagger, mat_neg X]])"

text \<open>The horizontal concatenation of the coupling blocks of all quantum wells.\<close>

definition C_total :: "constants \<Rightarrow> hopfield_pol \<Rightarrow> nat \<Rightarrow> cmat" where
  "C_total cs self kind =
     hcat (map (\<lambda>exc. fst (calculate_C_D cs self exc kind)) (self_exc_list self))"

text \<open>The self-energy block summed over all quantum wells.\<close>

definition D_total :: "constants \<Rightarrow> hopfield_pol \<Rightarrow> nat \<Rightarrow> cmat" where
  "D_total cs self kind =
     fold (\<lambda>exc acc. mat_add acc (snd (calculate_C_D cs self exc kind))) (self_exc_list self)
       (zeros (self_N_max self) (self_N_max self))"

text \<open>The diagonal photon block: the photonic energies corrected by \<open>2 Re D\<close>.\<close>

definition diag_photon :: "constants \<Rightarrow> hopfield_pol \<Rightarrow> nat \<Rightarrow> cmat" where
  "diag_photon cs self kind =
     mat_add (diag_phot_bare cs self kind) (mat_scale 2 (mat_real (D_total cs self kind)))"

text \<open>
  The Hopfield matrix as the specification describes it: the blocks \<open>\<plusminus>2 D\<close> hold the
  self-energy block summed over all quantum wells.
\<close>

definition spec_Hopfield :: "constants \<Rightarrow> hopfield_pol \<Rightarrow> nat \<Rightarrow> cmat" where
  "spec_Hopfield cs self kind =
     hopfield_blocks (diag_photon cs self kind) (C_total cs self kind) (D_total cs self kind)
       (diag_exciton self kind)"

text \<open>The block of \<open>nr\<close> rows and \<open>nc\<close> columns whose top left corner is at \<open>(r0, c0)\<close>.\<close>

definition submatrix :: "cmat \<Rightarrow> nat \<Rightarrow> nat \<Rightarrow> nat \<Rightarrow> nat \<Rightarrow> cmat" where
  "submatrix A r0 c0 nr nc = map (\<lambda>r. take nc (drop c0 r)) (take nr (drop r0 A))"

text \<open>An array of \<open>r\<close> rows and \<open>c\<close> columns.\<close>

definition shape :: "nat \<Rightarrow> nat \<Rightarrow> 'a list list \<Rightarrow> bool" where
  "shape r c A \<longleftrightarrow> length A = r \<and> list_all (\<lambda>row. length row = c) A"

subsection \<open>Other lattice constants, and a solver for diagonal matrices\<close>

text \<open>
  The same object with the lattice constants of all quantum wells but the first replaced:
  the well at position \<open>i\<close> of the list gets \<open>f i\<close>.
\<close>

definition set_other_a :: "(nat \<Rightarrow> real) \<Rightarrow> hopfield_pol \<Rightarrow> hopfield_pol" where
  "set_other_a f self =
     self\<lparr>self_exc_list :=
       (case self_exc_list self of
          [] \<Rightarrow> []
        | exc0 # rest \<Rightarrow> exc0 # map (\<lambda>(i, exc). exc\<lparr>exc_a := f i\<rparr>) (enumerate 1 rest))\<rparr>"

text \<open>
  The eigen-decomposition of a diagonal matrix: the eigenvalues are the diagonal entries
  and the eigenvectors are the unit vectors.
\<close>

definition eig_of_diag :: "cmat \<Rightarrow> cvec \<times> cmat" where
  "eig_of_diag m = (map (\<lambda>i. m ! i ! i) [0..<length m], eye (length m))"

subsection \<open>Matrices by entries, for the spectrum\<close>

text \<open>
  What follows is not code of the program: it is the linear algebra in which the contract
  of the dense solver is written. A matrix is the function of its entries.
\<close>

text \<open>The product of two \<open>n \<times> n\<close> matrices given by their entries.\<close>

definition mm :: "nat \<Rightarrow> (nat \<Rightarrow> nat \<Rightarrow> complex) \<Rightarrow> (nat \<Rightarrow> nat \<Rightarrow> complex) \<Rightarrow> nat \<Rightarrow> nat \<Rightarrow> complex" where
  "mm n A B = (\<lambda>i j. \<Sum>k<n. A i k * B k j)"

text \<open>The identity matrix.\<close>

definition idm :: "nat \<Rightarrow> nat \<Rightarrow> complex" where
  "idm = (\<lambda>i j. if i = j then 1 else 0)"

text \<open>Powers.\<close>

primrec pw :: "nat \<Rightarrow> (nat \<Rightarrow> nat \<Rightarrow> complex) \<Rightarrow> nat \<Rightarrow> nat \<Rightarrow> nat \<Rightarrow> complex" where
  "pw n A 0 = idm"
| "pw n A (Suc k) = mm n A (pw n A k)"

text \<open>The trace.\<close>

definition trc :: "nat \<Rightarrow> (nat \<Rightarrow> nat \<Rightarrow> complex) \<Rightarrow> complex" where
  "trc n A = (\<Sum>i<n. A i i)"

text \<open>Equality of the entries with indices below \<open>n\<close>.\<close>

definition meq :: "nat \<Rightarrow> (nat \<Rightarrow> nat \<Rightarrow> complex) \<Rightarrow> (nat \<Rightarrow> nat \<Rightarrow> complex) \<Rightarrow> bool" where
  "meq n A B \<longleftrightarrow> (\<forall>i<n. \<forall>j<n. A i j = B i j)"

text \<open>Upper triangular: zero below the diagonal.\<close>

definition upper :: "nat \<Rightarrow> (nat \<Rightarrow> nat \<Rightarrow> complex) \<Rightarrow> bool" where
  "upper n U \<longleftrightarrow> (\<forall>i<n. \<forall>j<i. U i j = 0)"

text \<open>The index in the other half of \<open>0, \<dots>, 2 h - 1\<close>.\<close>

definition swap_halves :: "nat \<Rightarrow> nat \<Rightarrow> nat" where
  "swap_halves h i = (if i < h then i + h else i - h)"

text \<open>
  A matrix of size \<open>2 h\<close> that changes sign when its halves are swapped and its rows and
  columns are multiplied by the signs \<open>sg\<close>.
\<close>

definition mirrored :: "nat \<Rightarrow> (nat \<Rightarrow> complex) \<Rightarrow> (nat \<Rightarrow> nat \<Rightarrow> complex) \<Rightarrow> bool" where
  "mirrored h sg M \<longleftrightarrow>
     (\<forall>i<2 * h. sg i * sg i = 1) \<and>
     (\<forall>i<2 * h. \<forall>j<2 * h. M (swap_halves h i) (swap_halves h j) = - (sg i * sg j * M i j))"

subsection \<open>The contract of the dense solver\<close>

text \<open>The entries of an array.\<close>

definition fm :: "cmat \<Rightarrow> nat \<Rightarrow> nat \<Rightarrow> complex" where
  "fm A = (\<lambda>i j. A ! i ! j)"

text \<open>
  \<open>w\<close> lists the eigenvalues of the square array \<open>A\<close>, each as often as its algebraic
  multiplicity: \<open>w\<close> is the diagonal of an upper triangular matrix \<open>U\<close> similar to \<open>A\<close>
  (a Schur form, \<open>A S = S U\<close> with \<open>S\<close> invertible).
\<close>

definition exact_eigenvalues :: "cmat \<Rightarrow> cvec \<Rightarrow> bool" where
  "exact_eigenvalues A w \<longleftrightarrow>
     (\<exists>S T U. meq (length A) (mm (length A) (fm A) S) (mm (length A) S U)
        \<and> meq (length A) (mm (length A) S T) idm
        \<and> meq (length A) (mm (length A) T S) idm
        \<and> upper (length A) U
        \<and> w = map (\<lambda>i. U i i) [0..<length A])"

text \<open>
  The solver is exact on \<open>A\<close>: it returns the eigenvalues of \<open>A\<close> with their multiplicities
  and a square array whose column \<open>j\<close> is an eigenvector for the eigenvalue \<open>j\<close>.
\<close>

definition exact_eig :: "(cmat \<Rightarrow> cvec \<times> cmat) \<Rightarrow> cmat \<Rightarrow> bool" where
  "exact_eig eig A \<longleftrightarrow>
     exact_eigenvalues A (fst (eig A))
     \<and> shape (length A) (length A) (snd (eig A))
     \<and> meq (length A) (mm (length A) (fm A) (fm (snd (eig A))))
          (\<lambda>i j. fm (snd (eig A)) i j * fst (eig A) ! j)"

text \<open>
  The signs of the rows of the Hopfield matrix: \<open>1\<close> for the two photon ranges, \<open>-1\<close> for
  the two exciton ranges, with \<open>N\<close> photon rows in each half of \<open>h\<close> rows.
\<close>

definition hopfield_sign :: "nat \<Rightarrow> nat \<Rightarrow> nat \<Rightarrow> complex" where
  "hopfield_sign N h i = (if i < N \<or> (h \<le> i \<and> i < h + N) then 1 else - 1)"

subsection \<open>The matrix of one k-point in a run\<close>

text \<open>
  The attributes that the assembler reads, with the values they have in the loop of
  \<^verbatim>\<open>run\<close>: the three counts as \<^verbatim>\<open>run\<close> sets them and the lattice constant of the first
  quantum well.
\<close>

definition run_prepared :: "hopfield_pol \<Rightarrow> hopfield_pol" where
  "run_prepared self =
     self\<lparr>self_num_QWs := length (self_exc_list self),
          self_N_max := gme_numeig (self_gme self),
          self_M_max := exc_numeig_ex (hd (self_exc_list self)),
          self_a := exc_a (hd (self_exc_list self))\<rparr>"

text \<open>The matrix that \<^verbatim>\<open>run\<close> assembles for the k-point \<open>ik\<close> (empty when the assembler raises).\<close>

definition assembled :: "constants \<Rightarrow> hopfield_pol \<Rightarrow> nat \<Rightarrow> cmat" where
  "assembled cs self ik =
     (case hopfield_matrix cs (run_prepared self) ik of Inl e \<Rightarrow> [] | Inr M \<Rightarrow> M)"

text \<open>The diagonal of a square array.\<close>

definition diagonal_of :: "cmat \<Rightarrow> cvec" where
  "diagonal_of A = map (\<lambda>i. A ! i ! i) [0..<length A]"

text \<open>
  The per-k-point results of a run over \<open>m\<close> k-points: every k-point has \<open>c\<close> energies,
  linewidths and fractions of either kind, and an eigenvector array of \<open>n\<close> rows and \<open>c\<close>
  columns.
\<close>

definition results_ok :: "nat \<Rightarrow> nat \<Rightarrow> nat \<Rightarrow> real list list \<Rightarrow> real list list \<Rightarrow> cmat list
    \<Rightarrow> real list list \<Rightarrow> real list list \<Rightarrow> bool" where
  "results_ok m n c eners eners_im eigvecs fractions_ex fractions_ph \<longleftrightarrow>
     length eners = m \<and> length eners_im = m \<and> length eigvecs = m
     \<and> length fractions_ex = m \<and> length fractions_ph = m
     \<and> list_all (\<lambda>e. length e = c) eners \<and> list_all (\<lambda>e. length e = c) eners_im
     \<and> list_all (shape n c) eigvecs
     \<and> list_all (\<lambda>e. length e = c) fractions_ex \<and> list_all (\<lambda>e. length e = c) fractions_ph"

text \<open>
  The real parts of the \<open>k\<close> lowest entries of \<open>w\<close>, in the order of \<^verbatim>\<open>bd.argsort\<close> (by real
  part, then by imaginary part), among those with a non-negative real part.
\<close>

definition lowest_energies :: "nat \<Rightarrow> cvec \<Rightarrow> real list" where
  "lowest_energies k w =
     map fst (take k (sort (map (\<lambda>x. (Re x, Im x)) (filter (\<lambda>x. Re x \<ge> 0) w))))"

text \<open>
  The bare energies at the k-point \<open>ik\<close> of a run: the photonic energies, then the exciton
  energies of all quantum wells (the diagonals of the two diagonal blocks).
\<close>

definition bare_energies :: "constants \<Rightarrow> hopfield_pol \<Rightarrow> nat \<Rightarrow> cvec" where
  "bare_energies cs self ik =
     diagonal_of (diag_phot_bare cs (run_prepared self) ik)
     @ diagonal_of (diag_exciton (run_prepared self) ik)"

section \<open>Layer index lookup\<close>

text \<open>
  No method assigns \<^verbatim>\<open>self.phc\<close> or \<^verbatim>\<open>self.N_layers\<close>: the assembler and \<^verbatim>\<open>run\<close> leave
  the two attributes as they find them.
\<close>

lemma construct_Hopfield_phc:
  assumes "construct_Hopfield cs s kind = Inr (M, s')"
  shows "self_phc s' = self_phc s" "self_N_layers s' = self_N_layers s"
  using assms
  by (cases "self_exc_list s";
      auto simp: construct_Hopfield_def Let_def bind_err_def split: sum.splits)+

lemma k_loop_phc:
  assumes "k_loop cs eig iks (s, eners, eners_im, mat_var) = Inr (s', eners', eners_im', mat_var')"
  shows "self_phc s' = self_phc s \<and> self_N_layers s' = self_N_layers s"
  using assms
proof (induction iks arbitrary: s eners eners_im mat_var)
  case Nil
  then show ?case by simp
next
  case (Cons ik iks)
  from Cons.prems obtain M s1 where
    c: "construct_Hopfield cs s ik = Inr (M, s1)"
    by (cases "construct_Hopfield cs s ik") (auto simp: bind_err_def)
  obtain ener ener_im evec fraction_ex fraction_ph where
    d: "diagonalise eig (s1\<lparr>self_numeig := length M\<rparr>) M
          = (ener, ener_im, evec, fraction_ex, fraction_ph)"
    by (cases "diagonalise eig (s1\<lparr>self_numeig := length M\<rparr>) M") auto
  let ?s2 = "s1\<lparr>self_numeig := length M,
                 self_eigvecs := self_eigvecs s1 @ [evec],
                 self_fractions_ex := self_fractions_ex s1 @ [fraction_ex],
                 self_fractions_ph := self_fractions_ph s1 @ [fraction_ph]\<rparr>"
  have "k_loop cs eig iks (?s2, eners @ [ener], eners_im @ [ener_im], Some M)
          = Inr (s', eners', eners_im', mat_var')"
    using Cons.prems by (simp add: c d bind_err_def Let_def)
  then have "self_phc s' = self_phc ?s2 \<and> self_N_layers s' = self_N_layers ?s2"
    by (rule Cons.IH)
  then show ?case
    using construct_Hopfield_phc [OF c] by simp
qed

lemma run_phc:
  assumes "run cs eig self kpoints = Inr res"
  shows "self_phc res = self_phc self \<and> self_N_layers res = self_N_layers self"
proof -
  obtain exc0 rest where excs: "self_exc_list self = exc0 # rest"
    using assms by (cases "self_exc_list self") (auto simp: run_def Let_def)
  let ?s = "self\<lparr>self_kpoints := kpoints, self_eigvecs := [], self_fractions_ex := [],
      self_fractions_ph := [], self_num_QWs := Suc (length rest),
      self_N_max := gme_numeig (self_gme self), self_M_max := exc_numeig_ex exc0\<rparr>"
  from assms obtain s' eners' eners_im' mat where
    loop: "k_loop cs eig [0..<length kpoints] (?s, [], [], None) = Inr (s', eners', eners_im', Some mat)"
    and res: "res = s'\<lparr>self_eners := eners', self_eners_im := eners_im', self_mat := mat\<rparr>"
    by (cases "k_loop cs eig [0..<length kpoints] (?s, [], [], None)")
      (auto simp: run_def Let_def excs bind_err_def split: option.splits)
  show ?thesis
    using k_loop_phc [OF loop] by (simp add: res)
qed

lemma z_to_lind_unset: "self_phc self = None \<Longrightarrow> z_to_lind self z = Inl AttributeError"
  by (simp add: z_to_lind_def)

text \<open>
  C6. The lookup of this class returns on no object of the class. The constructor assigns
  \<^verbatim>\<open>self.gme\<close> and \<^verbatim>\<open>self.exc_list\<close> only, and no method assigns \<^verbatim>\<open>self.phc\<close> or
  \<^verbatim>\<open>self.N_layers\<close>; so the first line of \<^verbatim>\<open>_z_to_lind\<close> raises \<^verbatim>\<open>AttributeError\<close> for
  every \<open>z\<close>, on the object as it is constructed and on the object that \<^verbatim>\<open>run\<close> leaves,
  where the claim has it return a layer index.
\<close>

theorem z_to_lind_raises:
  "z_to_lind (HopfieldPol_init gme excs) z = Inl AttributeError
   \<and> map_sum id (\<lambda>res. z_to_lind res z) (run cs eig (HopfieldPol_init gme excs) kpoints)
       = map_sum id (\<lambda>res. Inl AttributeError) (run cs eig (HopfieldPol_init gme excs) kpoints)"
proof -
  have init: "self_phc (HopfieldPol_init gme excs) = None"
    by (simp add: HopfieldPol_init_def)
  have "z_to_lind res z = Inl AttributeError"
    if "run cs eig (HopfieldPol_init gme excs) kpoints = Inr res" for res
    using run_phc [OF that] init by (simp add: z_to_lind_unset)
  then show ?thesis
    using init
    by (cases "run cs eig (HopfieldPol_init gme excs) kpoints") (simp_all add: z_to_lind_unset)
qed

text \<open>
  The loop itself does what the claim describes. Were the two attributes supplied from
  outside (a crystal with its lower cladding, and its number of layers), the lookup would
  return the first index, claddings counted, whose upper boundary \<open>z\<close> does not exceed, and
  one past the last layer index when \<open>z\<close> exceeds every upper boundary.
\<close>

lemma z_to_lind_loop_result:
  assumes "N_layers \<le> length ls" "lind \<le> N_layers"
  shows "\<exists>zm' r. z_to_lind_loop ls (Some N_layers) z zm lind = Inr (zm', r)
           \<and> lind \<le> r \<and> r \<le> N_layers
           \<and> zm' = (if r = lind then zm else z_max (ls ! (r - 1)))
           \<and> (r < N_layers \<longrightarrow> z \<le> zm')
           \<and> (r \<noteq> lind \<longrightarrow> z > zm)
           \<and> (\<forall>j. lind < j \<and> j < r \<longrightarrow> z > z_max (ls ! (j - 1)))"
  using assms(2)
proof (induction k \<equiv> "N_layers - lind" arbitrary: lind zm)
  case 0
  then have "lind = N_layers" by simp
  then show ?case
    by (subst z_to_lind_loop.simps) auto
next
  case (Suc k)
  show ?case
  proof (cases "z > zm")
    case False
    then show ?thesis
      using Suc.prems by (subst z_to_lind_loop.simps) auto
  next
    case True
    have lt: "lind < N_layers"
      using Suc.hyps(2) by simp
    then have inb: "lind + 1 - 1 < length ls"
      using assms(1) by simp
    have "k = N_layers - Suc lind" "Suc lind \<le> N_layers"
      using Suc.hyps(2) by simp_all
    from Suc.hyps(1) [OF this, of "z_max (ls ! lind)"]
    obtain zm' r where
      run: "z_to_lind_loop ls (Some N_layers) z (z_max (ls ! lind)) (Suc lind) = Inr (zm', r)"
      and bounds: "Suc lind \<le> r" "r \<le> N_layers"
      and zm': "zm' = (if r = Suc lind then z_max (ls ! lind) else z_max (ls ! (r - 1)))"
      and stop: "r < N_layers \<longrightarrow> z \<le> zm'"
      and first: "r \<noteq> Suc lind \<longrightarrow> z > z_max (ls ! lind)"
      and rest: "\<forall>j. Suc lind < j \<and> j < r \<longrightarrow> z > z_max (ls ! (j - 1))"
      by auto
    have eq: "z_to_lind_loop ls (Some N_layers) z zm lind = Inr (zm', r)"
      using True lt inb run by (subst z_to_lind_loop.simps) simp
    have between: "\<forall>j. lind < j \<and> j < r \<longrightarrow> z > z_max (ls ! (j - 1))"
    proof (intro allI impI)
      fix j assume j: "lind < j \<and> j < r"
      show "z > z_max (ls ! (j - 1))"
      proof (cases "j = Suc lind")
        case True
        with j first show ?thesis by auto
      next
        case False
        with j rest show ?thesis by auto
      qed
    qed
    show ?thesis
      using eq bounds zm' stop True between by auto
  qed
qed

lemma z_to_lind_with_attributes:
  assumes "self_phc self = Some phc" "self_N_layers self = Some N_layers"
    and "claddings phc \<noteq> []" "N_layers = length (layers phc)"
  shows "\<exists>r. z_to_lind self z = Inr r
           \<and> r \<le> N_layers + 1
           \<and> (\<forall>j < r. z > upper_boundary phc j)
           \<and> (r \<le> N_layers \<longrightarrow> z \<le> upper_boundary phc r)"
proof -
  obtain c0 cs where cl: "claddings phc = c0 # cs"
    using assms(3) by (cases "claddings phc") auto
  from z_to_lind_loop_result [of N_layers "layers phc" 0 z "z_max c0"] assms(4)
  obtain zm' r where
    run: "z_to_lind_loop (layers phc) (Some N_layers) z (z_max c0) 0 = Inr (zm', r)"
    and le: "r \<le> N_layers"
    and zm': "zm' = (if r = 0 then z_max c0 else z_max (layers phc ! (r - 1)))"
    and stop: "r < N_layers \<longrightarrow> z \<le> zm'"
    and first: "r \<noteq> 0 \<longrightarrow> z > z_max c0"
    and rest: "\<forall>j. 0 < j \<and> j < r \<longrightarrow> z > z_max (layers phc ! (j - 1))"
    by auto
  have ub: "zm' = upper_boundary phc r"
    using zm' cl by (simp add: upper_boundary_def)
  have below: "\<forall>j < r. z > upper_boundary phc j"
    using first rest cl by (auto simp: upper_boundary_def)
  show ?thesis
  proof (cases "z > zm' \<and> r = N_layers")
    case True
    then have "z_to_lind self z = Inr (N_layers + 1)"
      using run cl by (simp add: z_to_lind_def assms(1,2))
    moreover have "\<forall>j < N_layers + 1. z > upper_boundary phc j"
      using below True ub by (auto simp: less_Suc_eq)
    ultimately show ?thesis by auto
  next
    case False
    then have res: "z_to_lind self z = Inr r"
      using run cl by (auto simp: z_to_lind_def assms(1,2))
    have "z \<le> upper_boundary phc r"
      using False stop le ub by (cases "r = N_layers") auto
    with res le below show ?thesis by auto
  qed
qed

text \<open>
  With a crystal of two layers supplied from outside: inside the second layer, and above
  the whole stack. Without it, the error.
\<close>

lemma z_to_lind_examples:
  "z_to_lind ((HopfieldPol_init gme excs)
      \<lparr>self_phc := Some \<lparr>claddings = [\<lparr>z_max = 0\<rparr>, \<lparr>z_max = 9\<rparr>], layers = [\<lparr>z_max = 1\<rparr>, \<lparr>z_max = 2\<rparr>]\<rparr>,
       self_N_layers := Some 2\<rparr>) (3 / 2) = Inr 2"
  "z_to_lind ((HopfieldPol_init gme excs)
      \<lparr>self_phc := Some \<lparr>claddings = [\<lparr>z_max = 0\<rparr>, \<lparr>z_max = 9\<rparr>], layers = [\<lparr>z_max = 1\<rparr>, \<lparr>z_max = 2\<rparr>]\<rparr>,
       self_N_layers := Some 2\<rparr>) 5 = Inr 3"
  "z_to_lind (ex_pol [ex_exc 4 2]) (3 / 2) = Inl AttributeError"
  by (simp_all add: z_to_lind_def z_to_lind_loop.simps ex_pol_def)

text \<open>The example objects are constructed objects, with a placeholder for \<^verbatim>\<open>self.a\<close>.\<close>

lemma ex_pol_constructed: "ex_pol excs = (HopfieldPol_init ex_gme excs)\<lparr>self_a := 1\<rparr>"
  by (simp add: ex_pol_def HopfieldPol_init_def)

section \<open>Fractions\<close>

lemma fold_write_entries:
  "n \<le> length xs \<Longrightarrow> n \<le> length ys \<Longrightarrow>
   fold (\<lambda>b (xs, ys). (xs[b := F b], ys[b := G b])) [0..<n] (xs, ys)
     = (map F [0..<n] @ drop n xs, map G [0..<n] @ drop n ys)"
proof (induction n)
  case 0
  then show ?case by simp
next
  case (Suc n)
  then have "n < length xs" "n < length ys" by simp_all
  then have "drop n xs = xs ! n # drop (Suc n) xs" "drop n ys = ys ! n # drop (Suc n) ys"
    by (simp_all add: Cons_nth_drop_Suc)
  with Suc show ?case
    by (simp add: list_update_append)
qed

lemma calculate_fraction_eq:
  "calculate_fraction N_max M_max num_QWs eigenvectors =
     (map (\<lambda>band. abs2_sum eigenvectors N_max (N_max + M_max * num_QWs) band
                  + abs2_sum_from eigenvectors (2 * N_max + M_max * num_QWs) band)
        [0..<ncols eigenvectors],
      map (\<lambda>band. abs2_sum eigenvectors 0 N_max band
                  + abs2_sum eigenvectors (N_max + M_max * num_QWs)
                      (2 * N_max + M_max * num_QWs) band)
        [0..<ncols eigenvectors])"
  unfolding calculate_fraction_def Let_def
  by (subst fold_write_entries) simp_all

lemma sum_list_take_slice:
  "a \<le> b \<Longrightarrow>
   sum_list (map f (take a xs)) + sum_list (map f (py_slice a b xs)) = sum_list (map f (take b xs))"
proof -
  assume "a \<le> b"
  then have "take a (take b xs) = take a xs"
    by (simp add: min_def)
  moreover have "take a (take b xs) @ drop a (take b xs) = take b xs"
    by (rule append_take_drop_id)
  ultimately have "take a xs @ py_slice a b xs = take b xs"
    by (simp only: py_slice_def)
  then have "sum_list (map f (take a xs @ py_slice a b xs)) = sum_list (map f (take b xs))"
    by (rule arg_cong)
  then show ?thesis
    by (simp only: map_append sum_list_append)
qed

lemma abs2_sum_partition:
  "abs2_sum m 0 N band + abs2_sum m N (N + K) band + abs2_sum m (N + K) (2 * N + K) band
     + abs2_sum_from m (2 * N + K) band
   = sum_list (map (\<lambda>r. (cmod (r ! band))\<^sup>2) m)"
proof -
  let ?f = "\<lambda>r. (cmod (r ! band))\<^sup>2"
  have 0: "abs2_sum m 0 N band = sum_list (map ?f (take N m))"
    by (simp add: abs2_sum_def py_slice_def)
  have 1: "sum_list (map ?f (take N m)) + abs2_sum m N (N + K) band
             = sum_list (map ?f (take (N + K) m))"
    unfolding abs2_sum_def by (rule sum_list_take_slice) simp
  have 2: "sum_list (map ?f (take (N + K) m)) + abs2_sum m (N + K) (2 * N + K) band
             = sum_list (map ?f (take (2 * N + K) m))"
    unfolding abs2_sum_def by (rule sum_list_take_slice) simp
  have "sum_list (map ?f (take (2 * N + K) m @ drop (2 * N + K) m)) = sum_list (map ?f m)"
    by (simp only: append_take_drop_id)
  then have 3: "sum_list (map ?f (take (2 * N + K) m)) + abs2_sum_from m (2 * N + K) band
             = sum_list (map ?f m)"
    by (simp only: abs2_sum_from_def map_append sum_list_append)
  show ?thesis
    using 0 1 2 3 by simp
qed

text \<open>
  C9. For every eigenvector matrix and every band (column) of it, the photonic fraction
  plus the excitonic fraction is the sum of the squared magnitudes of all entries of that
  column, the four row ranges being a partition of the rows; hence the two fractions sum to
  1 exactly when the column has 2-norm 1.
\<close>

theorem fractions_sum_is_column_norm:
  assumes "band < ncols eigenvectors"
  shows "snd (calculate_fraction N_max M_max num_QWs eigenvectors) ! band
           + fst (calculate_fraction N_max M_max num_QWs eigenvectors) ! band
         = sum_list (map (\<lambda>r. (cmod (r ! band))\<^sup>2) eigenvectors)
       \<and> (snd (calculate_fraction N_max M_max num_QWs eigenvectors) ! band
           + fst (calculate_fraction N_max M_max num_QWs eigenvectors) ! band = 1
          \<longleftrightarrow> sqrt (sum_list (map (\<lambda>r. (cmod (r ! band))\<^sup>2) eigenvectors)) = 1)"
proof -
  have "snd (calculate_fraction N_max M_max num_QWs eigenvectors) ! band
           + fst (calculate_fraction N_max M_max num_QWs eigenvectors) ! band
         = sum_list (map (\<lambda>r. (cmod (r ! band))\<^sup>2) eigenvectors)"
    using assms abs2_sum_partition [of eigenvectors N_max band "M_max * num_QWs"]
    by (simp add: calculate_fraction_eq)
  then show ?thesis
    by (simp add: real_sqrt_eq_1_iff)
qed

theorem fractions_sum_is_column_norm_witness:
  "(1::nat) < ncols [[1, \<i>], [0, 1], [2, 0], [0, 0 :: complex]]
   \<and> snd (calculate_fraction 1 1 1 [[1, \<i>], [0, 1], [2, 0], [0, 0]]) ! 1
       + fst (calculate_fraction 1 1 1 [[1, \<i>], [0, 1], [2, 0], [0, 0]]) ! 1 = 2"
  using fractions_sum_is_column_norm [of 1 "[[1, \<i>], [0, 1], [2, 0], [0, 0]]" 1 1 1]
  by (simp add: ncols_def)

section \<open>Coupling blocks\<close>

lemma fold_write_row:
  "n < length C \<Longrightarrow> M \<le> length (C ! n) \<Longrightarrow>
   fold (\<lambda>nu C. C[n := (C ! n)[nu := F nu]]) [0..<M] C = C[n := map F [0..<M] @ drop M (C ! n)]"
proof (induction M)
  case 0
  then show ?case by simp
next
  case (Suc M)
  then have "M < length (C ! n)" by simp
  then have "drop M (C ! n) = C ! n ! M # drop (Suc M) (C ! n)"
    by (simp add: Cons_nth_drop_Suc)
  with Suc show ?case
    by (simp add: list_update_append)
qed

lemma update_after_prefix:
  "length A = N \<Longrightarrow> N < length C \<Longrightarrow> (A @ drop N C)[N := v] = A @ v # drop (Suc N) C"
  by (simp add: list_update_append flip: Cons_nth_drop_Suc)

lemma nth_after_prefix:
  "length A = N \<Longrightarrow> N < length C \<Longrightarrow> (A @ drop N C) ! N = C ! N"
  by (simp add: nth_append)

lemma fold_write_rows:
  "N \<le> length C \<Longrightarrow> (\<And>n. n < N \<Longrightarrow> M \<le> length (C ! n)) \<Longrightarrow>
   fold (\<lambda>n C. fold (\<lambda>nu C. C[n := (C ! n)[nu := F n nu]]) [0..<M] C) [0..<N] C
     = map (\<lambda>n. map (F n) [0..<M] @ drop M (C ! n)) [0..<N] @ drop N C"
proof (induction N)
  case 0
  then show ?case by simp
next
  case (Suc N)
  define A where "A = map (\<lambda>n. map (F n) [0..<M] @ drop M (C ! n)) [0..<N]"
  have lenA: "length A = N" by (simp add: A_def)
  have len: "N < length C" using Suc.prems by simp
  have step: "fold (\<lambda>n C. fold (\<lambda>nu C. C[n := (C ! n)[nu := F n nu]]) [0..<M] C) [0..<N] C
                = A @ drop N C"
    using Suc by (simp add: A_def)
  have row: "(A @ drop N C) ! N = C ! N"
    using lenA len by (rule nth_after_prefix)
  have "fold (\<lambda>nu C. C[N := (C ! N)[nu := F N nu]]) [0..<M] (A @ drop N C)
          = (A @ drop N C)[N := map (F N) [0..<M] @ drop M ((A @ drop N C) ! N)]"
    using len lenA Suc.prems(2) [of N] by (intro fold_write_row) (simp_all add: row)
  also have "\<dots> = A @ (map (F N) [0..<M] @ drop M (C ! N)) # drop (Suc N) C"
    unfolding row using lenA len by (rule update_after_prefix)
  finally show ?case
    using step by (simp add: A_def)
qed

lemma fold_write_zeros:
  "fold (\<lambda>n C. fold (\<lambda>nu C. C[n := (C ! n)[nu := F n nu]]) [0..<M] C) [0..<N] (zeros N M)
     = map (\<lambda>n. map (F n) [0..<M]) [0..<N]"
  by (subst fold_write_rows) (simp_all add: zeros_def)

lemma calculate_C_D_eq:
  "calculate_C_D cs self exc kind = (C_block cs self exc kind, D_block cs self exc kind)"
  unfolding calculate_C_D_def Let_def C_block_def D_block_def
  by (simp only: fold_write_zeros)

lemma sum_list_map2_nth:
  "sum_list (map2 h xs ys) = (\<Sum>i<min (length xs) (length ys). h (xs ! i) (ys ! i))"
proof -
  have "sum_list (map2 h xs ys) = (\<Sum>i = 0..<length (map2 h xs ys). map2 h xs ys ! i)"
    by (rule sum_list_sum_nth)
  also have "\<dots> = (\<Sum>i<min (length xs) (length ys). h (xs ! i) (ys ! i))"
    unfolding atLeast0LessThan by (rule sum.cong) simp_all
  finally show ?thesis .
qed

lemma np_dot_nth:
  assumes "length v = length E" "g < ncols E" 
  shows "np_dot v E ! g = (\<Sum>p<length v. v ! p * E ! p ! g)"
  using assms by (simp add: np_dot_def sum_list_map2_nth)

lemma C_entry_formula:
  assumes "length E = length (exc_osc_str exc)" "\<forall>r\<in>set E. length r = length W"
  shows "C_entry cs self exc E W =
           pref cs self * (\<Sum>g<length W. (\<Sum>p<length (exc_osc_str exc).
               complex_of_real (sqrt (Re (exc_osc_str exc ! p))) * E ! p ! g) * cnj (W ! g))"
proof (cases "E = []")
  case True
  with assms(1) show ?thesis
    by (simp add: C_entry_def np_dot_def ncols_def)
next
  case False
  then have nc: "ncols E = length W"
    using assms(2) by (cases E) (simp_all add: ncols_def)
  have len: "length (sqrt_osc_str exc) = length E"
    using assms(1) by (simp add: sqrt_osc_str_def)
  have "sum_list (map2 (*) (np_dot (sqrt_osc_str exc) E) (map cnj W))
          = (\<Sum>g<length W. np_dot (sqrt_osc_str exc) E ! g * cnj (W ! g))"
    by (simp add: sum_list_map2_nth) (simp add: np_dot_def nc)
  also have "\<dots> = (\<Sum>g<length W. (\<Sum>p<length (exc_osc_str exc).
               complex_of_real (sqrt (Re (exc_osc_str exc ! p))) * E ! p ! g) * cnj (W ! g))"
  proof (rule sum.cong [OF refl])
    fix g assume "g \<in> {..<length W}"
    then have "g < ncols E" using nc by simp
    from np_dot_nth [OF len this]
    have "np_dot (sqrt_osc_str exc) E ! g
            = (\<Sum>p<length (exc_osc_str exc). sqrt_osc_str exc ! p * E ! p ! g)"
      by (simp add: sqrt_osc_str_def)
    also have "\<dots> = (\<Sum>p<length (exc_osc_str exc).
                 complex_of_real (sqrt (Re (exc_osc_str exc ! p))) * E ! p ! g)"
      by (rule sum.cong) (simp_all add: sqrt_osc_str_def)
    finally show "np_dot (sqrt_osc_str exc) E ! g * cnj (W ! g)
        = (\<Sum>p<length (exc_osc_str exc).
             complex_of_real (sqrt (Re (exc_osc_str exc ! p))) * E ! p ! g) * cnj (W ! g)"
      by simp
  qed
  finally show ?thesis
    by (simp add: C_entry_def)
qed

lemma D_entry_formula:
  assumes "length C1 = M" "length C2 = M" "length en = M"
  shows "D_entry C1 C2 en = (\<Sum>nu<M. cnj (C1 ! nu) * C2 ! nu / complex_of_real (Re (en ! nu)))"
  using assms by (simp add: D_entry_def sum_list_map2_nth)

lemma C_block_nth:
  "n < self_N_max self \<Longrightarrow> nu < self_M_max self \<Longrightarrow>
   C_block cs self exc kind ! n ! nu =
     C_entry cs self exc (gme_ft_field_xy (self_gme self) ''E'' kind n (exc_z exc))
       (exc_ft_wavef_xy exc kind nu)"
  by (simp add: C_block_def)

lemma C_block_shape:
  "length (C_block cs self exc kind) = self_N_max self"
  "n < self_N_max self \<Longrightarrow> length (C_block cs self exc kind ! n) = self_M_max self"
  by (simp_all add: C_block_def)

lemma D_block_shape:
  "length (D_block cs self exc kind) = self_N_max self"
  "n < self_N_max self \<Longrightarrow> length (D_block cs self exc kind ! n) = self_N_max self"
  by (simp_all add: D_block_def)

text \<open>
  C4. For every quantum well and k-point, wherever the shapes of the provider data agree
  (as the array operations require), the builder returns \<open>C\<close> with
  \<open>C[n, \<nu>] = prefactor \<cdot> \<Sum>\<^sub>g (\<Sum>\<^sub>p \<surd>(Re osc\<^sub>p) \<cdot> E\<^sub>p\<^sub>g) \<cdot> conj W\<^sub>g\<close>, where the prefactor is
  \<open>-i \<cdot> \<surd>(\<hbar>\<^sup>2 e\<^sup>2 / (4 m\<^sub>e \<epsilon>\<^sub>0)) / e / \<surd>a\<close> and the oscillator strengths are cast to real,
  and \<open>D\<close> with \<open>D[n\<^sub>1, n\<^sub>2] = \<Sum>\<^sub>\<nu> conj C[n\<^sub>1, \<nu>] \<cdot> C[n\<^sub>2, \<nu>] / Re E\<^sub>\<nu>\<close>.
\<close>

theorem calculate_C_D_entries:
  assumes "\<forall>n<self_N_max self.
             length (gme_ft_field_xy (self_gme self) ''E'' kind n (exc_z exc)) = length (exc_osc_str exc)
             \<and> (\<forall>nu<self_M_max self.
                  \<forall>r\<in>set (gme_ft_field_xy (self_gme self) ''E'' kind n (exc_z exc)).
                    length r = length (exc_ft_wavef_xy exc kind nu))"
    and "length (exc_eners exc kind) = self_M_max self"
  shows "(\<forall>n<self_N_max self. \<forall>nu<self_M_max self.
            fst (calculate_C_D cs self exc kind) ! n ! nu =
              (- \<i> * complex_of_real (sqrt ((cs_hbar cs)\<^sup>2 * (cs_e cs)\<^sup>2 / (4 * cs_m_e cs * cs_epsilon_0 cs)))
                 / complex_of_real (cs_e cs) / complex_of_real (sqrt (self_a self)))
              * (\<Sum>g<length (exc_ft_wavef_xy exc kind nu).
                   (\<Sum>p<length (exc_osc_str exc).
                      complex_of_real (sqrt (Re (exc_osc_str exc ! p)))
                      * gme_ft_field_xy (self_gme self) ''E'' kind n (exc_z exc) ! p ! g)
                   * cnj (exc_ft_wavef_xy exc kind nu ! g)))
       \<and> (\<forall>n_1<self_N_max self. \<forall>n_2<self_N_max self.
            snd (calculate_C_D cs self exc kind) ! n_1 ! n_2 =
              (\<Sum>nu<self_M_max self.
                 cnj (fst (calculate_C_D cs self exc kind) ! n_1 ! nu)
                 * fst (calculate_C_D cs self exc kind) ! n_2 ! nu
                 / complex_of_real (Re (exc_eners exc kind ! nu))))"
proof (intro conjI allI impI)
  fix n nu assume "n < self_N_max self" "nu < self_M_max self"
  then show "fst (calculate_C_D cs self exc kind) ! n ! nu =
              (- \<i> * complex_of_real (sqrt ((cs_hbar cs)\<^sup>2 * (cs_e cs)\<^sup>2 / (4 * cs_m_e cs * cs_epsilon_0 cs)))
                 / complex_of_real (cs_e cs) / complex_of_real (sqrt (self_a self)))
              * (\<Sum>g<length (exc_ft_wavef_xy exc kind nu).
                   (\<Sum>p<length (exc_osc_str exc).
                      complex_of_real (sqrt (Re (exc_osc_str exc ! p)))
                      * gme_ft_field_xy (self_gme self) ''E'' kind n (exc_z exc) ! p ! g)
                   * cnj (exc_ft_wavef_xy exc kind nu ! g))"
    using assms(1) by (simp add: calculate_C_D_eq C_block_nth C_entry_formula pref_def)
next
  fix n_1 n_2 assume "n_1 < self_N_max self" "n_2 < self_N_max self"
  then show "snd (calculate_C_D cs self exc kind) ! n_1 ! n_2 =
              (\<Sum>nu<self_M_max self.
                 cnj (fst (calculate_C_D cs self exc kind) ! n_1 ! nu)
                 * fst (calculate_C_D cs self exc kind) ! n_2 ! nu
                 / complex_of_real (Re (exc_eners exc kind ! nu)))"
    using assms(2)
    by (simp add: calculate_C_D_eq D_block_def D_entry_formula [where M = "self_M_max self"] C_block_shape)
qed

theorem calculate_C_D_entries_witness:
  "length (gme_ft_field_xy (self_gme (ex_pol_run [ex_exc 4 2])) ''E'' 0 0 (exc_z (ex_exc 4 2)))
     = length (exc_osc_str (ex_exc 4 2))
   \<and> length (exc_eners (ex_exc 4 2) 0) = self_M_max (ex_pol_run [ex_exc 4 2])
   \<and> fst (calculate_C_D ex_cs (ex_pol_run [ex_exc 4 2]) (ex_exc 4 2) 0) ! 0 ! 0 = - 2 * \<i>
   \<and> snd (calculate_C_D ex_cs (ex_pol_run [ex_exc 4 2]) (ex_exc 4 2) 0) ! 0 ! 0 = 2"
proof -
  let ?self = "ex_pol_run [ex_exc 4 2]"
  have h1: "\<forall>n<self_N_max ?self.
       length (gme_ft_field_xy (self_gme ?self) ''E'' 0 n (exc_z (ex_exc 4 2)))
         = length (exc_osc_str (ex_exc 4 2))
       \<and> (\<forall>nu<self_M_max ?self.
            \<forall>r\<in>set (gme_ft_field_xy (self_gme ?self) ''E'' 0 n (exc_z (ex_exc 4 2))).
              length r = length (exc_ft_wavef_xy (ex_exc 4 2) 0 nu))"
    by (simp add: ex_pol_run_def ex_pol_def ex_exc_def ex_gme_def)
  have h2: "length (exc_eners (ex_exc 4 2) 0) = self_M_max ?self"
    by (simp add: ex_pol_run_def ex_pol_def ex_exc_def)
  have N: "0 < self_N_max ?self" and M: "0 < self_M_max ?self"
    by (simp_all add: ex_pol_run_def ex_pol_def)
  note c = calculate_C_D_entries [OF h1 h2, of ex_cs]
  have C: "fst (calculate_C_D ex_cs ?self (ex_exc 4 2) 0) ! 0 ! 0 = - 2 * \<i>"
    using c [THEN conjunct1, rule_format, OF N M]
    by (simp add: ex_pol_run_def ex_pol_def ex_exc_def ex_gme_def ex_cs_def)
  have D: "snd (calculate_C_D ex_cs ?self (ex_exc 4 2) 0) ! 0 ! 0 = 2"
    using c [THEN conjunct2, rule_format, OF N N] C
    by (simp add: ex_pol_run_def ex_pol_def ex_exc_def)
  have "length (gme_ft_field_xy (self_gme ?self) ''E'' 0 0 (exc_z (ex_exc 4 2)))
          = length (exc_osc_str (ex_exc 4 2))"
    using h1 N by blast
  then show ?thesis
    using h2 C D by blast
qed

section \<open>The assembler in closed form\<close>

lemma shapeI: "length A = r \<Longrightarrow> (\<And>i. i < r \<Longrightarrow> length (A ! i) = c) \<Longrightarrow> shape r c A"
  by (auto simp: shape_def list_all_length)

lemma shape_length: "shape r c A \<Longrightarrow> length A = r"
  by (simp add: shape_def)

lemma shape_row: "shape r c A \<Longrightarrow> i < r \<Longrightarrow> length (A ! i) = c"
  by (auto simp: shape_def list_all_length)

lemma shape_ncols: "shape r c A \<Longrightarrow> 0 < r \<Longrightarrow> ncols A = c"
  by (cases A) (auto simp: shape_def ncols_def)

lemma shape_zeros: "shape r c (zeros r c)"
  by (simp add: shape_def zeros_def list_all_length)

lemma shape_mat_scale: "shape r c A \<Longrightarrow> shape r c (mat_scale k A)"
  by (simp add: shape_def mat_scale_def list_all_length)

lemma shape_mat_neg: "shape r c A \<Longrightarrow> shape r c (mat_neg A)"
  by (simp add: shape_def mat_neg_def list_all_length)

lemma shape_mat_real: "shape r c A \<Longrightarrow> shape r c (mat_real A)"
  by (simp add: shape_def mat_real_def list_all_length)

lemma shape_mat_conjugate: "shape r c A \<Longrightarrow> shape r c (mat_conjugate A)"
  by (simp add: shape_def mat_conjugate_def list_all_length)

lemma shape_mat_add: "shape r c A \<Longrightarrow> shape r c B \<Longrightarrow> shape r c (mat_add A B)"
  by (simp add: shape_def mat_add_def list_all_length)

lemma shape_mat_T: "shape r c A \<Longrightarrow> 0 < r \<Longrightarrow> shape c r (mat_T A)"
  by (frule (1) shape_ncols) (simp add: shape_def mat_T_def list_all_length)

lemma shape_fill_diagonal: "shape r c A \<Longrightarrow> shape r c (fill_diagonal A vals)"
  by (simp add: shape_def fill_diagonal_def list_all_length)

lemma shape_C_block: "shape (self_N_max self) (self_M_max self) (C_block cs self exc kind)"
  by (rule shapeI) (simp_all add: C_block_shape)

lemma shape_D_block: "shape (self_N_max self) (self_N_max self) (D_block cs self exc kind)"
  by (rule shapeI) (simp_all add: D_block_shape)

lemma length_concat_const:
  "(\<And>x. x \<in> set xs \<Longrightarrow> length (f x) = c) \<Longrightarrow> length (concat (map f xs)) = c * length xs"
  by (induction xs) simp_all

lemma shape_hcat_same:
  assumes "ms \<noteq> []" "\<And>m. m \<in> set ms \<Longrightarrow> shape r c m"
  shows "shape r (c * length ms) (hcat ms)"
proof (rule shapeI)
  have "hd ms \<in> set ms" using assms(1) by simp
  then have "length (hd ms) = r"
    using assms(2) by (blast intro: shape_length)
  then show len: "length (hcat ms) = r"
    by (simp add: hcat_def)
  fix i assume i: "i < r"
  have "length (concat (map (\<lambda>m. m ! i) ms)) = c * length ms"
    using assms(2) i by (intro length_concat_const) (rule shape_row)
  then show "length (hcat ms ! i) = c * length ms"
    using len i by (simp add: hcat_def)
qed

lemma hstack_ok:
  assumes "ms \<noteq> []" "\<And>m. m \<in> set ms \<Longrightarrow> length m = r"
  shows "hstack ms = Inr (hcat ms)"
  using assms by (cases ms) (auto simp: hstack_def list_all_iff)

lemma shape_hcat4:
  assumes "shape r c1 A" "shape r c2 B" "shape r c3 C" "shape r c4 D"
  shows "shape r (c1 + c2 + c3 + c4) (hcat [A, B, C, D])"
proof (rule shapeI)
  show "length (hcat [A, B, C, D]) = r"
    using assms(1) by (simp add: hcat_def shape_length)
  fix i assume "i < r"
  then show "length (hcat [A, B, C, D] ! i) = c1 + c2 + c3 + c4"
    using assms by (simp add: hcat_def shape_length shape_row)
qed

lemma hstack4_ok:
  assumes "shape r c1 A" "shape r c2 B" "shape r c3 C" "shape r c4 D"
  shows "hstack [A, B, C, D] = Inr (hcat [A, B, C, D])"
  using assms by (intro hstack_ok [where r = r]) (auto simp: shape_length)

lemma vstack4_ok:
  assumes "shape r1 c A" "shape r2 c B" "shape r3 c C" "shape r4 c D"
    and "0 < r1" "0 < r2" "0 < r3" "0 < r4"
  shows "vstack [A, B, C, D] = Inr (A @ B @ C @ D)"
  using assms by (simp add: vstack_def shape_ncols)

lemma qw_loop_eq:
  "k + length excs \<le> length Cb \<Longrightarrow>
   qw_loop cs self kind (enumerate k excs) (Cb, Df, Dv) =
     Inr (take k Cb @ map (\<lambda>e. C_block cs self e kind) excs @ drop (k + length excs) Cb,
          fold (\<lambda>e acc. mat_add acc (D_block cs self e kind)) excs Df,
          if excs = [] then Dv else Some (D_block cs self (last excs) kind))"
proof (induction excs arbitrary: k Cb Df Dv)
  case Nil
  then show ?case by simp
next
  case (Cons e es)
  then have k: "k < length Cb" by simp
  have "take (Suc k) (Cb[k := C_block cs self e kind]) = take k Cb @ [C_block cs self e kind]"
    using k by (simp add: take_Suc_conv_app_nth)
  with Cons.IH [of "Suc k" "Cb[k := C_block cs self e kind]"] Cons.prems k
  show ?case
    by (simp add: calculate_C_D_eq)
qed

lemma D_total_eq:
  "D_total cs self kind =
     fold (\<lambda>e acc. mat_add acc (D_block cs self e kind)) (self_exc_list self)
       (zeros (self_N_max self) (self_N_max self))"
  by (simp add: D_total_def calculate_C_D_eq)

lemma C_total_eq:
  "C_total cs self kind = hcat (map (\<lambda>e. C_block cs self e kind) (self_exc_list self))"
  by (simp add: C_total_def calculate_C_D_eq)

lemma shape_fold_mat_add:
  "shape r c A \<Longrightarrow> (\<And>e. shape r c (f e)) \<Longrightarrow> shape r c (fold (\<lambda>e acc. mat_add acc (f e)) es A)"
  by (induction es arbitrary: A) (simp_all add: shape_mat_add)

lemma shape_D_total: "shape (self_N_max self) (self_N_max self) (D_total cs self kind)"
  unfolding D_total_eq by (intro shape_fold_mat_add shape_zeros shape_D_block)

lemma shape_C_total:
  "self_exc_list self \<noteq> [] \<Longrightarrow>
   shape (self_N_max self) (self_M_max self * length (self_exc_list self)) (C_total cs self kind)"
proof -
  assume ne: "self_exc_list self \<noteq> []"
  have "shape (self_N_max self)
          (self_M_max self * length (map (\<lambda>e. C_block cs self e kind) (self_exc_list self)))
          (hcat (map (\<lambda>e. C_block cs self e kind) (self_exc_list self)))"
    using ne by (intro shape_hcat_same) (auto simp: shape_C_block)
  then show ?thesis
    by (simp add: C_total_eq)
qed

lemma shape_diag_phot_bare: "shape (self_N_max self) (self_N_max self) (diag_phot_bare cs self kind)"
  by (simp add: diag_phot_bare_def Let_def shape_fill_diagonal shape_zeros)

lemma shape_diag_photon: "shape (self_N_max self) (self_N_max self) (diag_photon cs self kind)"
  unfolding diag_photon_def
  by (intro shape_mat_add shape_mat_scale shape_mat_real shape_D_total shape_diag_phot_bare)

lemma shape_diag_exciton:
  "shape (self_M_max self * self_num_QWs self) (self_M_max self * self_num_QWs self)
     (diag_exciton self kind)"
  unfolding diag_exciton_def by (intro shape_fill_diagonal shape_zeros)

lemma mat_scale_0: "shape r c A \<Longrightarrow> mat_scale 0 A = zeros r c"
  by (auto simp: shape_def mat_scale_def zeros_def list_all_length intro!: nth_equalityI)
lemma hopfield_blocks_rows:
  "hopfield_blocks P C D X =
     hcat [P, mat_scale (- \<i>) C, mat_scale (- 2) D, mat_scale (- \<i>) C]
     @ hcat [mat_scale \<i> (mat_conjugate (mat_T C)), X, mat_scale (- \<i>) (mat_conjugate (mat_T C)),
             zeros (length X) (length X)]
     @ hcat [mat_scale 2 D, mat_scale (- \<i>) C, mat_neg P, mat_scale (- \<i>) C]
     @ hcat [mat_scale (- \<i>) (mat_conjugate (mat_T C)), zeros (length X) (length X),
             mat_scale \<i> (mat_conjugate (mat_T C)), mat_neg X]"
  by (simp add: hopfield_blocks_def block_matrix_def Let_def)

lemma assemble_rows:
  assumes P: "shape N N P" and C: "shape N K C" and D: "shape N N D" and X: "shape K K X"
    and pos: "0 < N" "0 < K"
  shows "bind_err (hstack [P, mat_scale (- \<i>) C, mat_scale (- 2) D, mat_scale (- \<i>) C]) (\<lambda>row_0.
         bind_err (hstack [mat_scale \<i> (mat_conjugate (mat_T C)), X,
                           mat_scale (- \<i>) (mat_conjugate (mat_T C)), mat_scale 0 X]) (\<lambda>row_1.
         bind_err (hstack [mat_scale 2 D, mat_scale (- \<i>) C, mat_neg P, mat_scale (- \<i>) C]) (\<lambda>row_2.
         bind_err (hstack [mat_scale (- \<i>) (mat_conjugate (mat_T C)), mat_scale 0 X,
                           mat_scale \<i> (mat_conjugate (mat_T C)), mat_neg X]) (\<lambda>row_3.
         vstack [row_0, row_1, row_2, row_3]))))
       = Inr (hopfield_blocks P C D X)"
proof -
  let ?Cd = "mat_conjugate (mat_T C)"
  have Cd: "shape K N ?Cd"
    using C pos by (intro shape_mat_conjugate shape_mat_T)
  have Z: "mat_scale 0 X = zeros (length X) (length X)"
    using X by (simp add: mat_scale_0 shape_length)
  have ZX: "shape K K (mat_scale 0 X)"
    using X by (rule shape_mat_scale)
  let ?r0 = "[P, mat_scale (- \<i>) C, mat_scale (- 2) D, mat_scale (- \<i>) C]"
  let ?r1 = "[mat_scale \<i> ?Cd, X, mat_scale (- \<i>) ?Cd, mat_scale 0 X]"
  let ?r2 = "[mat_scale 2 D, mat_scale (- \<i>) C, mat_neg P, mat_scale (- \<i>) C]"
  let ?r3 = "[mat_scale (- \<i>) ?Cd, mat_scale 0 X, mat_scale \<i> ?Cd, mat_neg X]"
  have s0: "shape N (N + K + N + K) (hcat ?r0)"
    by (intro shape_hcat4 shape_mat_scale P C D)
  have s1: "shape K (N + K + N + K) (hcat ?r1)"
    by (intro shape_hcat4 shape_mat_scale Cd X)
  have s2: "shape N (N + K + N + K) (hcat ?r2)"
    by (intro shape_hcat4 shape_mat_scale shape_mat_neg P C D)
  have s3: "shape K (N + K + N + K) (hcat ?r3)"
    by (intro shape_hcat4 shape_mat_scale shape_mat_neg Cd X)
  have h0: "hstack ?r0 = Inr (hcat ?r0)"
    by (rule hstack4_ok [where r = N]; (rule shape_mat_scale)?; rule P C D)
  have h1: "hstack ?r1 = Inr (hcat ?r1)"
    by (rule hstack4_ok [where r = K]; (rule shape_mat_scale)?; rule Cd X)
  have h2: "hstack ?r2 = Inr (hcat ?r2)"
    by (rule hstack4_ok [where r = N]; (rule shape_mat_scale shape_mat_neg)?; rule P C D)
  have h3: "hstack ?r3 = Inr (hcat ?r3)"
    by (rule hstack4_ok [where r = K]; (rule shape_mat_scale shape_mat_neg)?; rule Cd X)
  have v: "vstack [hcat ?r0, hcat ?r1, hcat ?r2, hcat ?r3]
             = Inr (hcat ?r0 @ hcat ?r1 @ hcat ?r2 @ hcat ?r3)"
    using s0 s1 s2 s3 pos(1) pos(2) pos(1) pos(2) by (rule vstack4_ok)
  have "Inr (hcat ?r0 @ hcat ?r1 @ hcat ?r2 @ hcat ?r3) = Inr (hopfield_blocks P C D X)"
    by (simp only: hopfield_blocks_rows Z)
  then show ?thesis
    by (simp only: h0 h1 h2 h3 bind_err_def sum.case v)
qed

lemma bind_err_Inr: "bind_err (Inr x) f = f x"
  by (simp add: bind_err_def)

lemma hopfield_matrix_eq:
  assumes ne: "self_exc_list self \<noteq> []"
    and Q: "self_num_QWs self = length (self_exc_list self)"
    and pos: "0 < self_N_max self" "0 < self_M_max self"
  shows "hopfield_matrix cs self kind =
           Inr (hopfield_blocks (diag_photon cs self kind) (C_total cs self kind)
                  (D_block cs self (last (self_exc_list self)) kind) (diag_exciton self kind))"
proof -
  define D where "D = D_block cs self (last (self_exc_list self)) kind"
  have loop: "qw_loop cs self kind (enumerate 0 (self_exc_list self))
                (replicate (self_num_QWs self) [], zeros (self_N_max self) (self_N_max self), None)
              = Inr (map (\<lambda>e. C_block cs self e kind) (self_exc_list self), D_total cs self kind,
                     Some D)"
    using qw_loop_eq [of 0 "self_exc_list self" "replicate (self_num_QWs self) []" cs self kind
        "zeros (self_N_max self) (self_N_max self)" None] ne
    by (simp add: Q D_total_eq D_def)
  have hs: "hstack (map (\<lambda>e. C_block cs self e kind) (self_exc_list self)) = Inr (C_total cs self kind)"
    unfolding C_total_eq
    using ne by (intro hstack_ok [where r = "self_N_max self"]) (auto simp: C_block_shape)
  have K: "0 < self_M_max self * self_num_QWs self"
    using pos ne by (simp add: Q)
  have C: "shape (self_N_max self) (self_M_max self * self_num_QWs self) (C_total cs self kind)"
    using shape_C_total [of self cs kind] ne by (simp add: Q)
  have DD: "shape (self_N_max self) (self_N_max self) D"
    unfolding D_def by (rule shape_D_block)
  note rows = assemble_rows [OF shape_diag_photon C DD shape_diag_exciton pos(1) K, of cs kind kind]
  show ?thesis
    unfolding hopfield_matrix_def Let_def D_def [symmetric]
    by (simp only: loop bind_err_Inr prod.case hs option.case diag_photon_def [symmetric] rows)
qed

lemma construct_Hopfield_eq:
  assumes ne: "self_exc_list self0 \<noteq> []"
    and Q: "self_num_QWs self0 = length (self_exc_list self0)"
    and pos: "0 < self_N_max self0" "0 < self_M_max self0"
  shows "construct_Hopfield cs self0 kind =
           Inr (hopfield_blocks
                  (diag_photon cs (self0\<lparr>self_a := exc_a (hd (self_exc_list self0))\<rparr>) kind)
                  (C_total cs (self0\<lparr>self_a := exc_a (hd (self_exc_list self0))\<rparr>) kind)
                  (D_block cs (self0\<lparr>self_a := exc_a (hd (self_exc_list self0))\<rparr>)
                     (last (self_exc_list self0)) kind)
                  (diag_exciton (self0\<lparr>self_a := exc_a (hd (self_exc_list self0))\<rparr>) kind),
                self0\<lparr>self_a := exc_a (hd (self_exc_list self0))\<rparr>)"
proof -
  obtain exc0 rest where excs: "self_exc_list self0 = exc0 # rest"
    using ne by (cases "self_exc_list self0") auto
  have "hopfield_matrix cs (self0\<lparr>self_a := exc_a exc0\<rparr>) kind =
          Inr (hopfield_blocks (diag_photon cs (self0\<lparr>self_a := exc_a exc0\<rparr>) kind)
                 (C_total cs (self0\<lparr>self_a := exc_a exc0\<rparr>) kind)
                 (D_block cs (self0\<lparr>self_a := exc_a exc0\<rparr>)
                    (last (self_exc_list (self0\<lparr>self_a := exc_a exc0\<rparr>))) kind)
                 (diag_exciton (self0\<lparr>self_a := exc_a exc0\<rparr>) kind))"
    using assms by (intro hopfield_matrix_eq) simp_all
  then show ?thesis
    by (simp add: construct_Hopfield_def excs bind_err_Inr Let_def)
qed

lemma hcat4_nth:
  "i < length A \<Longrightarrow> hcat [A, B, C, D] ! i = A ! i @ B ! i @ C ! i @ D ! i"
  by (simp add: hcat_def)

lemma length_hcat4: "length (hcat [A, B, C, D]) = length A"
  by (simp add: hcat_def)

lemma map_nth_rows: "shape r c A \<Longrightarrow> map (\<lambda>i. take c (A ! i)) [0..<r] = A"
  by (auto simp: shape_def list_all_length intro!: nth_equalityI)

lemma submatrix_first:
  assumes "shape r c A"
  shows "submatrix (hcat [A, B, C, D] @ rest) 0 0 r c = A"
proof -
  have "submatrix (hcat [A, B, C, D] @ rest) 0 0 r c = map (take c) (hcat [A, B, C, D])"
    using assms by (simp add: submatrix_def length_hcat4 shape_length)
  also have "\<dots> = map (\<lambda>i. take c (hcat [A, B, C, D] ! i)) [0..<r]"
    using assms by (simp add: length_hcat4 shape_length list_eq_iff_nth_eq)
  also have "\<dots> = map (\<lambda>i. take c (A ! i)) [0..<r]"
    using assms by (simp add: hcat4_nth shape_length shape_row)
  also have "\<dots> = A"
    using assms by (rule map_nth_rows)
  finally show ?thesis .
qed

lemma submatrix_third:
  assumes "shape r c1 A" "shape r c2 B" "shape r c C"
  shows "submatrix (hcat [A, B, C, D] @ rest) 0 (c1 + c2) r c = C"
proof -
  have "submatrix (hcat [A, B, C, D] @ rest) 0 (c1 + c2) r c
          = map (\<lambda>row. take c (drop (c1 + c2) row)) (hcat [A, B, C, D])"
    using assms by (simp add: submatrix_def length_hcat4 shape_length)
  also have "\<dots> = map (\<lambda>i. take c (drop (c1 + c2) (hcat [A, B, C, D] ! i))) [0..<r]"
    using assms by (simp add: length_hcat4 shape_length list_eq_iff_nth_eq)
  also have "\<dots> = map (\<lambda>i. take c (C ! i)) [0..<r]"
    using assms by (simp add: hcat4_nth shape_length shape_row)
  also have "\<dots> = C"
    using assms(3) by (rule map_nth_rows)
  finally show ?thesis .
qed

lemma submatrix_skip_rows:
  "length R = n \<Longrightarrow> submatrix (R @ rest) (n + r0) c0 nr nc = submatrix rest r0 c0 nr nc"
  by (simp add: submatrix_def)

lemma mat_neg_scale: "mat_neg (mat_scale k A) = mat_scale (- k) A"
  by (simp add: mat_neg_def mat_scale_def)

lemma shape_append: "shape r1 c A \<Longrightarrow> shape r2 c B \<Longrightarrow> shape (r1 + r2) c (A @ B)"
  by (simp add: shape_def)

lemma hopfield_blocks_shape:
  assumes P: "shape N N P" and C: "shape N K C" and D: "shape N N D" and X: "shape K K X"
    and pos: "0 < N"
  shows "shape (2 * (N + K)) (2 * (N + K)) (hopfield_blocks P C D X)"
proof -
  let ?Cd = "mat_conjugate (mat_T C)"
  have Cd: "shape K N ?Cd"
    using C pos by (intro shape_mat_conjugate shape_mat_T)
  have Z: "shape K K (zeros (length X) (length X))"
    using X by (simp add: shape_length shape_zeros)
  have s0: "shape N (N + K + N + K) (hcat [P, mat_scale (- \<i>) C, mat_scale (- 2) D, mat_scale (- \<i>) C])"
    by (intro shape_hcat4 shape_mat_scale P C D)
  have s1: "shape K (N + K + N + K) (hcat [mat_scale \<i> ?Cd, X, mat_scale (- \<i>) ?Cd, zeros (length X) (length X)])"
    by (intro shape_hcat4 shape_mat_scale Cd X Z)
  have s2: "shape N (N + K + N + K) (hcat [mat_scale 2 D, mat_scale (- \<i>) C, mat_neg P, mat_scale (- \<i>) C])"
    by (intro shape_hcat4 shape_mat_scale shape_mat_neg P C D)
  have s3: "shape K (N + K + N + K) (hcat [mat_scale (- \<i>) ?Cd, zeros (length X) (length X), mat_scale \<i> ?Cd, mat_neg X])"
    by (intro shape_hcat4 shape_mat_scale shape_mat_neg Cd X Z)
  have "shape (N + (K + (N + K))) (N + K + N + K) (hopfield_blocks P C D X)"
    unfolding hopfield_blocks_rows by (intro shape_append s0 s1 s2 s3)
  moreover have "N + (K + (N + K)) = 2 * (N + K)" "N + K + N + K = 2 * (N + K)"
    by simp_all
  ultimately show ?thesis
    by simp
qed

lemma hopfield_blocks_mirror:
  assumes P: "shape N N P" and C: "shape N K C" and D: "shape N N D" and X: "shape K K X"
    and pos: "0 < N"
  shows "submatrix (hopfield_blocks P C D X) 0 (N + K) N N = mat_scale (- 2) D"
    and "submatrix (hopfield_blocks P C D X) (N + K) 0 N N = mat_scale 2 D"
proof -
  let ?Cd = "mat_conjugate (mat_T C)"
  have Cd: "shape K N ?Cd"
    using C pos by (intro shape_mat_conjugate shape_mat_T)
  show "submatrix (hopfield_blocks P C D X) 0 (N + K) N N = mat_scale (- 2) D"
    unfolding hopfield_blocks_rows
    by (rule submatrix_third) (intro P shape_mat_scale C D)+
  have l0: "length (hcat [P, mat_scale (- \<i>) C, mat_scale (- 2) D, mat_scale (- \<i>) C]) = N"
    using P by (simp add: length_hcat4 shape_length)
  have l1: "length (hcat [mat_scale \<i> ?Cd, X, mat_scale (- \<i>) ?Cd, zeros (length X) (length X)]) = K"
    using Cd by (simp add: length_hcat4 shape_length mat_scale_def)
  have "submatrix (hopfield_blocks P C D X) (N + K) 0 N N
          = submatrix (hcat [mat_scale 2 D, mat_scale (- \<i>) C, mat_neg P, mat_scale (- \<i>) C]
              @ hcat [mat_scale (- \<i>) ?Cd, zeros (length X) (length X), mat_scale \<i> ?Cd, mat_neg X])
              0 0 N N"
    unfolding hopfield_blocks_rows
    using submatrix_skip_rows [OF l0, of _ K] submatrix_skip_rows [OF l1, of _ 0]
    by simp
  also have "\<dots> = mat_scale 2 D"
    by (rule submatrix_first) (intro shape_mat_scale D)
  finally show "submatrix (hopfield_blocks P C D X) (N + K) 0 N N = mat_scale 2 D" .
qed
section \<open>The assembler on the small configuration\<close>

lemma lower_None: "lower ''None'' = ''none''"
  by code_simp

lemma ex_C_block:
  "self_N_max self = 1 \<Longrightarrow> self_M_max self = 1 \<Longrightarrow> self_gme self = ex_gme \<Longrightarrow> self_a self = 1 \<Longrightarrow>
   C_block ex_cs self (ex_exc osc en) kind = [[- \<i> * complex_of_real (sqrt (Re osc))]]"
  by (simp add: C_block_def C_entry_def pref_def sqrt_osc_str_def np_dot_def ncols_def
      ex_cs_def ex_exc_def ex_gme_def)

lemma ex_D_block:
  "self_N_max self = 1 \<Longrightarrow> self_M_max self = 1 \<Longrightarrow> self_gme self = ex_gme \<Longrightarrow> self_a self = 1 \<Longrightarrow>
   D_block ex_cs self (ex_exc osc en) kind =
     [[cnj (- \<i> * complex_of_real (sqrt (Re osc))) * (- \<i> * complex_of_real (sqrt (Re osc)))
        / complex_of_real (Re en)]]"
  by (simp add: D_block_def ex_C_block D_entry_def) (simp add: ex_exc_def)

lemma ex_pol_run_fields:
  "self_N_max ((ex_pol_run excs)\<lparr>self_a := 1\<rparr>) = 1"
  "self_M_max ((ex_pol_run excs)\<lparr>self_a := 1\<rparr>) = 1"
  "self_gme ((ex_pol_run excs)\<lparr>self_a := 1\<rparr>) = ex_gme"
  "self_a ((ex_pol_run excs)\<lparr>self_a := 1\<rparr>) = 1"
  "self_exc_list ((ex_pol_run excs)\<lparr>self_a := 1\<rparr>) = excs"
  "self_num_QWs ((ex_pol_run excs)\<lparr>self_a := 1\<rparr>) = length excs"
  by (simp_all add: ex_pol_run_def ex_pol_def)

lemma ex_pol_run_a: "(ex_pol_run excs)\<lparr>self_a := 1\<rparr> = ex_pol_run excs"
  by (simp add: ex_pol_run_def ex_pol_def)

lemma ex_diag_phot_bare: "diag_phot_bare ex_cs (ex_pol_run excs) kind = [[7]]"
  by (simp add: diag_phot_bare_def ex_pol_run_def ex_pol_def ex_gme_def lower_None ex_cs_def
      zeros_def fill_diagonal_def phot_energies_def)

lemma ex_construct_Hopfield:
  assumes "excs \<noteq> []" "exc_a (hd excs) = 1"
  shows "construct_Hopfield ex_cs (ex_pol_run excs) kind =
           Inr (hopfield_blocks (diag_photon ex_cs (ex_pol_run excs) kind)
                  (C_total ex_cs (ex_pol_run excs) kind)
                  (D_block ex_cs (ex_pol_run excs) (last excs) kind)
                  (diag_exciton (ex_pol_run excs) kind),
                ex_pol_run excs)"
proof -
  have e: "self_exc_list (ex_pol_run excs) = excs"
    by (simp add: ex_pol_run_def ex_pol_def)
  have "construct_Hopfield ex_cs (ex_pol_run excs) kind =
          Inr (hopfield_blocks
                 (diag_photon ex_cs ((ex_pol_run excs)\<lparr>self_a := exc_a (hd (self_exc_list (ex_pol_run excs)))\<rparr>) kind)
                 (C_total ex_cs ((ex_pol_run excs)\<lparr>self_a := exc_a (hd (self_exc_list (ex_pol_run excs)))\<rparr>) kind)
                 (D_block ex_cs ((ex_pol_run excs)\<lparr>self_a := exc_a (hd (self_exc_list (ex_pol_run excs)))\<rparr>)
                    (last (self_exc_list (ex_pol_run excs))) kind)
                 (diag_exciton ((ex_pol_run excs)\<lparr>self_a := exc_a (hd (self_exc_list (ex_pol_run excs)))\<rparr>) kind),
               (ex_pol_run excs)\<lparr>self_a := exc_a (hd (self_exc_list (ex_pol_run excs)))\<rparr>)"
    using assms(1) by (intro construct_Hopfield_eq) (simp_all add: ex_pol_run_def ex_pol_def)
  then show ?thesis
    unfolding e assms(2) ex_pol_run_a .
qed

lemma ex_two_wells_blocks:
  "C_total ex_cs (ex_pol_run [ex_exc 1 1, ex_exc 1 2]) 0 = [[- \<i>, - \<i>]]"
  "D_total ex_cs (ex_pol_run [ex_exc 1 1, ex_exc 1 2]) 0 = [[3 / 2]]"
  "D_block ex_cs (ex_pol_run [ex_exc 1 1, ex_exc 1 2]) (ex_exc 1 2) 0 = [[1 / 2]]"
  "diag_photon ex_cs (ex_pol_run [ex_exc 1 1, ex_exc 1 2]) 0 = [[10]]"
  "diag_exciton (ex_pol_run [ex_exc 1 1, ex_exc 1 2]) 0 = [[1, 0], [0, 2]]"
proof -
  let ?self = "ex_pol_run [ex_exc 1 1, ex_exc 1 2]"
  note f = ex_pol_run_fields [of "[ex_exc 1 1, ex_exc 1 2]", unfolded ex_pol_run_a]
  show "C_total ex_cs ?self 0 = [[- \<i>, - \<i>]]"
    unfolding C_total_eq f by (simp add: hcat_def ex_C_block [OF f(1-4)])
  show D: "D_total ex_cs ?self 0 = [[3 / 2]]"
    unfolding D_total_eq f by (simp add: ex_D_block [OF f(1-4)] zeros_def mat_add_def)
  show "D_block ex_cs ?self (ex_exc 1 2) 0 = [[1 / 2]]"
    by (simp add: ex_D_block [OF f(1-4)])
  show "diag_photon ex_cs ?self 0 = [[10]]"
    unfolding diag_photon_def D ex_diag_phot_bare
    by (simp add: mat_real_def mat_scale_def mat_add_def)
  show "diag_exciton ?self 0 = [[1, 0], [0, 2]]"
    unfolding diag_exciton_def f
    by (simp add: ex_exc_def zeros_def fill_diagonal_def numeral_2_eq_2)
qed

lemma ex_two_wells:
  "construct_Hopfield ex_cs (ex_pol_run [ex_exc 1 1, ex_exc 1 2]) 0 =
     Inr ([[10, - 1, - 1, - 1, - 1, - 1],
           [- 1, 1, 0, 1, 0, 0],
           [- 1, 0, 2, 1, 0, 0],
           [1, - 1, - 1, - 10, - 1, - 1],
           [1, 0, 0, - 1, - 1, 0],
           [1, 0, 0, - 1, 0, - 2]], ex_pol_run [ex_exc 1 1, ex_exc 1 2])"
proof -
  have "construct_Hopfield ex_cs (ex_pol_run [ex_exc 1 1, ex_exc 1 2]) 0 =
          Inr (hopfield_blocks [[10]] [[- \<i>, - \<i>]] [[1 / 2]] [[1, 0], [0, 2]],
               ex_pol_run [ex_exc 1 1, ex_exc 1 2])"
    using ex_construct_Hopfield [of "[ex_exc 1 1, ex_exc 1 2]" 0]
    by (simp add: ex_two_wells_blocks) (simp add: ex_exc_def)
  then show ?thesis
    by (simp add: hopfield_blocks_rows hcat_def mat_scale_def mat_neg_def mat_conjugate_def
        mat_T_def ncols_def zeros_def numeral_2_eq_2)
qed

lemma ex_one_well_blocks:
  "C_total ex_cs (ex_pol_run [ex_exc 4 2]) 0 = [[- (\<i> * 2)]]"
  "D_total ex_cs (ex_pol_run [ex_exc 4 2]) 0 = [[2]]"
  "D_block ex_cs (ex_pol_run [ex_exc 4 2]) (ex_exc 4 2) 0 = [[2]]"
  "diag_photon ex_cs (ex_pol_run [ex_exc 4 2]) 0 = [[11]]"
  "diag_exciton (ex_pol_run [ex_exc 4 2]) 0 = [[2]]"
proof -
  let ?self = "ex_pol_run [ex_exc 4 2]"
  note f = ex_pol_run_fields [of "[ex_exc 4 2]", unfolded ex_pol_run_a]
  show "C_total ex_cs ?self 0 = [[- (\<i> * 2)]]"
    unfolding C_total_eq f by (simp add: hcat_def ex_C_block [OF f(1-4)])
  show L: "D_block ex_cs ?self (ex_exc 4 2) 0 = [[2]]"
    by (simp add: ex_D_block [OF f(1-4)])
  show D: "D_total ex_cs ?self 0 = [[2]]"
    unfolding D_total_eq f by (simp add: L zeros_def mat_add_def)
  show "diag_photon ex_cs ?self 0 = [[11]]"
    unfolding diag_photon_def D ex_diag_phot_bare
    by (simp add: mat_real_def mat_scale_def mat_add_def)
  show "diag_exciton ?self 0 = [[2]]"
    unfolding diag_exciton_def f
    by (simp add: ex_exc_def zeros_def fill_diagonal_def)
qed

lemma ex_one_well:
  "construct_Hopfield ex_cs (ex_pol_run [ex_exc 4 2]) 0 =
     Inr ([[11, - 2, - 4, - 2],
           [- 2, 2, 2, 0],
           [4, - 2, - 11, - 2],
           [2, 0, - 2, - 2]], ex_pol_run [ex_exc 4 2])"
proof -
  have "construct_Hopfield ex_cs (ex_pol_run [ex_exc 4 2]) 0 =
          Inr (hopfield_blocks [[11]] [[- (\<i> * 2)]] [[2]] [[2]], ex_pol_run [ex_exc 4 2])"
    using ex_construct_Hopfield [of "[ex_exc 4 2]" 0]
    by (simp add: ex_one_well_blocks) (simp add: ex_exc_def)
  then show ?thesis
    by (simp add: hopfield_blocks_rows hcat_def mat_scale_def mat_neg_def mat_conjugate_def
        mat_T_def ncols_def zeros_def)
qed

text \<open>
  C1. With two quantum wells the assembler does not return the matrix of the claim: the
  blocks \<open>-2 D\<close> and \<open>2 D\<close> of block-rows 0 and 2 hold the self-energy block of the last
  quantum well, not the sum over the quantum wells that the photon block was corrected
  with. Here the wells contribute \<open>D = 1\<close> and \<open>D = 1/2\<close>: the code writes \<open>\<mp>1\<close> where the
  sum \<open>3/2\<close> gives \<open>\<mp>3\<close>.
\<close>

theorem construct_Hopfield_two_wells:
  "map_sum id fst (construct_Hopfield ex_cs (ex_pol_run [ex_exc 1 1, ex_exc 1 2]) 0) =
     Inr [[10, - 1, - 1, - 1, - 1, - 1],
          [- 1, 1, 0, 1, 0, 0],
          [- 1, 0, 2, 1, 0, 0],
          [1, - 1, - 1, - 10, - 1, - 1],
          [1, 0, 0, - 1, - 1, 0],
          [1, 0, 0, - 1, 0, - 2]]
   \<and> spec_Hopfield ex_cs (ex_pol_run [ex_exc 1 1, ex_exc 1 2]) 0 =
         [[10, - 1, - 1, - 3, - 1, - 1],
          [- 1, 1, 0, 1, 0, 0],
          [- 1, 0, 2, 1, 0, 0],
          [3, - 1, - 1, - 10, - 1, - 1],
          [1, 0, 0, - 1, - 1, 0],
          [1, 0, 0, - 1, 0, - 2]]"
proof
  show "map_sum id fst (construct_Hopfield ex_cs (ex_pol_run [ex_exc 1 1, ex_exc 1 2]) 0) =
     Inr [[10, - 1, - 1, - 1, - 1, - 1],
          [- 1, 1, 0, 1, 0, 0],
          [- 1, 0, 2, 1, 0, 0],
          [1, - 1, - 1, - 10, - 1, - 1],
          [1, 0, 0, - 1, - 1, 0],
          [1, 0, 0, - 1, 0, - 2]]"
    by (simp add: ex_two_wells)
  show "spec_Hopfield ex_cs (ex_pol_run [ex_exc 1 1, ex_exc 1 2]) 0 =
         [[10, - 1, - 1, - 3, - 1, - 1],
          [- 1, 1, 0, 1, 0, 0],
          [- 1, 0, 2, 1, 0, 0],
          [3, - 1, - 1, - 10, - 1, - 1],
          [1, 0, 0, - 1, - 1, 0],
          [1, 0, 0, - 1, 0, - 2]]"
    unfolding spec_Hopfield_def ex_two_wells_blocks
    by (simp add: hopfield_blocks_rows hcat_def mat_scale_def mat_neg_def mat_conjugate_def
        mat_T_def ncols_def zeros_def numeral_2_eq_2)
qed

section \<open>Size and mirror blocks of the assembled matrix\<close>

lemma mat_add_zeros: "shape r c A \<Longrightarrow> mat_add (zeros r c) A = A"
  by (auto simp: shape_def mat_add_def zeros_def list_all_length intro!: nth_equalityI)

lemma D_total_one_well:
  "self_exc_list self = [exc] \<Longrightarrow> D_total cs self kind = D_block cs self exc kind"
  by (simp add: D_total_eq mat_add_zeros [OF shape_D_block])

text \<open>
  C3, as the code has it. For a matrix \<open>M\<close> built by the assembler (at least one quantum
  well, at least one photonic and one excitonic band), \<open>M\<close> is square of size
  \<open>2 (N_max + M_max num_QWs)\<close>; the \<open>N_max \<times> N_max\<close> block of block-row 0 and block-column 2
  (which starts at column \<open>N_max + M_max num_QWs\<close>) is the negative of the block of
  block-row 2 and block-column 0; with one quantum well the former is \<open>-2 D\<close> and the
  latter is \<open>2 D\<close>.
\<close>

theorem construct_Hopfield_size_mirror:
  assumes "self_exc_list self0 \<noteq> []"
    and "self_num_QWs self0 = length (self_exc_list self0)"
    and "0 < self_N_max self0" "0 < self_M_max self0"
  shows "\<exists>M s. construct_Hopfield cs self0 kind = Inr (M, s)
           \<and> shape (2 * (self_N_max self0 + self_M_max self0 * self_num_QWs self0))
                (2 * (self_N_max self0 + self_M_max self0 * self_num_QWs self0)) M
           \<and> submatrix M 0 (self_N_max self0 + self_M_max self0 * self_num_QWs self0)
                (self_N_max self0) (self_N_max self0)
               = mat_neg (submatrix M (self_N_max self0 + self_M_max self0 * self_num_QWs self0) 0
                   (self_N_max self0) (self_N_max self0))
           \<and> (self_num_QWs self0 = 1 \<longrightarrow>
                submatrix M 0 (self_N_max self0 + self_M_max self0 * self_num_QWs self0)
                  (self_N_max self0) (self_N_max self0) = mat_scale (- 2) (D_total cs s kind)
                \<and> submatrix M (self_N_max self0 + self_M_max self0 * self_num_QWs self0) 0
                  (self_N_max self0) (self_N_max self0) = mat_scale 2 (D_total cs s kind))"
proof -
  define self where "self = self0\<lparr>self_a := exc_a (hd (self_exc_list self0))\<rparr>"
  define D where "D = D_block cs self (last (self_exc_list self0)) kind"
  define M where "M = hopfield_blocks (diag_photon cs self kind) (C_total cs self kind) D
                        (diag_exciton self kind)"
  define N where "N = self_N_max self0"
  define K where "K = self_M_max self0 * self_num_QWs self0"
  have fields: "self_exc_list self = self_exc_list self0" "self_num_QWs self = self_num_QWs self0"
    "self_N_max self = N" "self_M_max self = self_M_max self0"
    by (simp_all add: self_def N_def)
  have run: "construct_Hopfield cs self0 kind = Inr (M, self)"
    unfolding M_def D_def self_def by (rule construct_Hopfield_eq) (rule assms)+
  have P: "shape N N (diag_photon cs self kind)"
    using shape_diag_photon [of self cs kind] by (simp add: fields)
  have C: "shape N K (C_total cs self kind)"
    using shape_C_total [of self cs kind] assms(1,2) by (simp add: fields K_def)
  have DD: "shape N N D"
    using shape_D_block [of self cs _ kind] by (simp add: D_def fields)
  have X: "shape K K (diag_exciton self kind)"
    using shape_diag_exciton [of self kind] by (simp add: fields K_def)
  have pos: "0 < N"
    using assms(3) by (simp add: N_def)
  have size: "shape (2 * (N + K)) (2 * (N + K)) M"
    unfolding M_def using P C DD X pos by (rule hopfield_blocks_shape)
  have up: "submatrix M 0 (N + K) N N = mat_scale (- 2) D"
    unfolding M_def using P C DD X pos by (rule hopfield_blocks_mirror)
  have low: "submatrix M (N + K) 0 N N = mat_scale 2 D"
    unfolding M_def using P C DD X pos by (rule hopfield_blocks_mirror)
  have mirror: "submatrix M 0 (N + K) N N = mat_neg (submatrix M (N + K) 0 N N)"
    by (simp add: up low mat_neg_scale)
  have one: "D_total cs self kind = D" if "self_num_QWs self0 = 1"
  proof -
    from that assms(2) obtain exc where e: "self_exc_list self0 = [exc]"
      by (cases "self_exc_list self0") auto
    then show ?thesis
      using D_total_one_well [of self exc cs kind] by (simp add: fields D_def)
  qed
  show ?thesis
    using run size mirror up low one unfolding N_def K_def by auto
qed

theorem construct_Hopfield_size_mirror_witness:
  "self_exc_list (ex_pol_run [ex_exc 4 2]) \<noteq> []
   \<and> self_num_QWs (ex_pol_run [ex_exc 4 2]) = length (self_exc_list (ex_pol_run [ex_exc 4 2]))
   \<and> 0 < self_N_max (ex_pol_run [ex_exc 4 2]) \<and> 0 < self_M_max (ex_pol_run [ex_exc 4 2])
   \<and> (\<exists>M s. construct_Hopfield ex_cs (ex_pol_run [ex_exc 4 2]) 0 = Inr (M, s)
         \<and> shape 4 4 M
         \<and> submatrix M 0 2 1 1 = mat_neg (submatrix M 2 0 1 1)
         \<and> submatrix M 0 2 1 1 = mat_scale (- 2) (D_total ex_cs s 0)
         \<and> submatrix M 2 0 1 1 = mat_scale 2 (D_total ex_cs s 0))"
proof -
  have h: "self_exc_list (ex_pol_run [ex_exc 4 2]) \<noteq> []"
    "self_num_QWs (ex_pol_run [ex_exc 4 2]) = length (self_exc_list (ex_pol_run [ex_exc 4 2]))"
    "0 < self_N_max (ex_pol_run [ex_exc 4 2])" "0 < self_M_max (ex_pol_run [ex_exc 4 2])"
    by (simp_all add: ex_pol_run_def ex_pol_def)
  have v: "self_num_QWs (ex_pol_run [ex_exc 4 2]) = 1" "self_N_max (ex_pol_run [ex_exc 4 2]) = 1"
    "self_M_max (ex_pol_run [ex_exc 4 2]) = 1"
    by (simp_all add: ex_pol_run_def ex_pol_def)
  have "\<exists>M s. construct_Hopfield ex_cs (ex_pol_run [ex_exc 4 2]) 0 = Inr (M, s)
         \<and> shape 4 4 M
         \<and> submatrix M 0 2 1 1 = mat_neg (submatrix M 2 0 1 1)
         \<and> submatrix M 0 2 1 1 = mat_scale (- 2) (D_total ex_cs s 0)
         \<and> submatrix M 2 0 1 1 = mat_scale 2 (D_total ex_cs s 0)"
    using construct_Hopfield_size_mirror [OF h, of ex_cs 0] unfolding v
    by (simp add: numeral_2_eq_2 [symmetric])
  with h show ?thesis
    by blast
qed

text \<open>
  The claim as it is worded fails with one quantum well already: there \<open>D = 2\<close>, the
  block of block-row 0 and block-column 2 is \<open>-4\<close>, not \<open>2 D = 4\<close>, and the two mirror
  blocks differ.
\<close>

theorem construct_Hopfield_mirror_counterexample:
  "map_sum id fst (construct_Hopfield ex_cs (ex_pol_run [ex_exc 4 2]) 0) =
     Inr [[11, - 2, - 4, - 2],
          [- 2, 2, 2, 0],
          [4, - 2, - 11, - 2],
          [2, 0, - 2, - 2]]
   \<and> mat_scale 2 (D_total ex_cs (ex_pol_run [ex_exc 4 2]) 0) = [[4]]
   \<and> submatrix [[11, - 2, - 4, - 2], [- 2, 2, 2, 0], [4, - 2, - 11, - 2], [2, 0, - 2, - 2]] 0 2 1 1
        \<noteq> mat_scale 2 (D_total ex_cs (ex_pol_run [ex_exc 4 2]) 0)
   \<and> submatrix [[11, - 2, - 4, - 2], [- 2, 2, 2, 0], [4, - 2, - 11, - 2], [2, 0, - 2, - 2]] 0 2 1 1
        \<noteq> submatrix [[11, - 2, - 4, - 2], [- 2, 2, 2, 0], [4, - 2, - 11, - 2], [2, 0, - 2, - 2]] 2 0 1 1"
proof -
  have M: "map_sum id fst (construct_Hopfield ex_cs (ex_pol_run [ex_exc 4 2]) 0) =
     Inr [[11, - 2, - 4, - 2], [- 2, 2, 2, 0], [4, - 2, - 11, - 2], [2, 0, - 2, - 2]]"
    by (simp add: ex_one_well)
  show ?thesis
    unfolding ex_one_well_blocks using M by (simp add: submatrix_def mat_scale_def)
qed

section \<open>No quantum wells\<close>

text \<open>
  C8, as the code has it. With no quantum well configured, \<^verbatim>\<open>run\<close> does not return: reading
  \<^verbatim>\<open>self.exc_list[0]\<close> raises \<^verbatim>\<open>IndexError\<close> before any k-point is processed, whatever the
  solver and the k-points; the assembler raises the same error at its first line.
\<close>

theorem run_no_quantum_wells:
  assumes "self_exc_list self = []"
  shows "run cs eig self kpoints = Inl IndexError \<and> construct_Hopfield cs self kind = Inl IndexError"
  using assms by (simp add: run_def construct_Hopfield_def)

theorem run_no_quantum_wells_witness:
  "self_exc_list (ex_pol []) = []
   \<and> run ex_cs eig_of_diag (ex_pol []) [(0, 0)] = Inl IndexError
   \<and> construct_Hopfield ex_cs (ex_pol []) 0 = Inl IndexError"
proof -
  have h: "self_exc_list (ex_pol []) = []"
    by (simp add: ex_pol_def)
  from run_no_quantum_wells [OF h] h show ?thesis
    by blast
qed

text \<open>No error-free outcome, hence no energies and no fractions, at a concrete input.\<close>

theorem run_no_quantum_wells_counterexample:
  "isl (run ex_cs eig_of_diag (ex_pol []) [(0, 0), (1 / 2, 0)])"
  by (simp add: run_def ex_pol_def)

section \<open>The lattice constant\<close>

lemma calculate_C_D_exc_a:
  "calculate_C_D cs self (exc\<lparr>exc_a := x\<rparr>) kind = calculate_C_D cs self exc kind"
  by (simp add: calculate_C_D_def C_entry_def sqrt_osc_str_def)

lemma calculate_C_D_exc_list:
  "calculate_C_D cs (self\<lparr>self_exc_list := l\<rparr>) exc kind = calculate_C_D cs self exc kind"
  by (simp add: calculate_C_D_def C_entry_def pref_def)

lemma qw_loop_exc_list:
  "qw_loop cs (self\<lparr>self_exc_list := l\<rparr>) kind ies st = qw_loop cs self kind ies st"
  by (induction cs self kind ies st rule: qw_loop.induct)
    (simp_all add: calculate_C_D_exc_list split: prod.splits)

lemma qw_loop_exc_a:
  "qw_loop cs self kind (map (\<lambda>(i, exc). (i, exc\<lparr>exc_a := f i\<rparr>)) ies) st
     = qw_loop cs self kind ies st"
  by (induction cs self kind ies st rule: qw_loop.induct)
    (simp_all add: calculate_C_D_exc_a split: prod.splits)

lemma enumerate_map_snd:
  "enumerate k (map (\<lambda>(i, x). g i x) (enumerate k xs)) = map (\<lambda>(i, x). (i, g i x)) (enumerate k xs)"
  by (induction xs arbitrary: k) simp_all

lemma exc_eners_other_a:
  "map (\<lambda>e. exc_eners e kind) (map (\<lambda>(i, exc). exc\<lparr>exc_a := f i\<rparr>) (enumerate k rest))
     = map (\<lambda>e. exc_eners e kind) rest"
  by (induction rest arbitrary: k) simp_all

lemma diag_phot_bare_exc_list:
  "diag_phot_bare cs (self\<lparr>self_exc_list := l\<rparr>) kind = diag_phot_bare cs self kind"
  by (simp add: diag_phot_bare_def)

lemma qw_loop_other_a:
  "qw_loop cs (s\<lparr>self_exc_list := l\<rparr>) kind
     (enumerate k (map (\<lambda>(i, exc). exc\<lparr>exc_a := f i\<rparr>) (enumerate k rest))) st
   = qw_loop cs s kind (enumerate k rest) st"
  by (simp only: enumerate_map_snd qw_loop_exc_list qw_loop_exc_a)

lemma diag_exciton_other_a:
  "self_exc_list s = exc0 # rest \<Longrightarrow>
   diag_exciton (s\<lparr>self_exc_list := exc0 # map (\<lambda>(i, exc). exc\<lparr>exc_a := f i\<rparr>) (enumerate k rest)\<rparr>) kind
     = diag_exciton s kind"
  using exc_eners_other_a [of kind f k rest] by (simp add: diag_exciton_def)

lemma hopfield_matrix_other_a:
  assumes "self_exc_list s = exc0 # rest"
  shows "hopfield_matrix cs
           (s\<lparr>self_exc_list := exc0 # map (\<lambda>(i, exc). exc\<lparr>exc_a := f i\<rparr>) (enumerate 1 rest)\<rparr>) kind
         = hopfield_matrix cs s kind"
proof -
  let ?l = "exc0 # map (\<lambda>(i, exc). exc\<lparr>exc_a := f i\<rparr>) (enumerate 1 rest)"
  have loop: "qw_loop cs (s\<lparr>self_exc_list := ?l\<rparr>) kind (enumerate 0 ?l) st
                = qw_loop cs s kind (enumerate 0 (self_exc_list s)) st" for st
  proof (cases st)
    case (fields Cb Df Dv)
    show ?thesis
      by (simp add: assms fields calculate_C_D_exc_list qw_loop_other_a cong: if_cong
          split: prod.splits)
  qed
  have sel: "self_num_QWs (s\<lparr>self_exc_list := ?l\<rparr>) = self_num_QWs s"
    "self_N_max (s\<lparr>self_exc_list := ?l\<rparr>) = self_N_max s"
    "self_exc_list (s\<lparr>self_exc_list := ?l\<rparr>) = ?l"
    by simp_all
  show ?thesis
    unfolding hopfield_matrix_def sel loop diag_phot_bare_exc_list diag_exciton_other_a [OF assms] ..
qed

lemma construct_Hopfield_set_other_a:
  "construct_Hopfield cs (set_other_a f self) kind =
     map_sum id (\<lambda>(M, s). (M, set_other_a f s)) (construct_Hopfield cs self kind)"
proof (cases "self_exc_list self")
  case Nil
  then show ?thesis
    by (simp add: construct_Hopfield_def set_other_a_def)
next
  case (Cons exc0 rest)
  let ?l = "exc0 # map (\<lambda>(i, exc). exc\<lparr>exc_a := f i\<rparr>) (enumerate 1 rest)"
  let ?s = "self\<lparr>self_a := exc_a exc0\<rparr>"
  have s: "(set_other_a f self)\<lparr>self_a := exc_a exc0\<rparr> = ?s\<lparr>self_exc_list := ?l\<rparr>"
    "set_other_a f ?s = ?s\<lparr>self_exc_list := ?l\<rparr>"
    "self_exc_list (set_other_a f self) = ?l"
    by (simp_all add: set_other_a_def Cons)
  have l: "self_exc_list ?s = exc0 # rest"
    by (simp add: Cons)
  show ?thesis
    unfolding construct_Hopfield_def s(3) Cons list.case Let_def s(1)
      hopfield_matrix_other_a [OF l]
    by (cases "hopfield_matrix cs ?s kind") (simp_all add: bind_err_def s(2))
qed

lemma diagonalise_exc_list:
  "diagonalise eig (s\<lparr>self_exc_list := l\<rparr>) mat = diagonalise eig s mat"
  by (simp add: diagonalise_def)
lemma diagonalise_set_other_a:
  "diagonalise eig (set_other_a f s) mat = diagonalise eig s mat"
  by (simp add: set_other_a_def diagonalise_def)

lemma k_loop_set_other_a:
  "k_loop cs eig iks (set_other_a f self, eners, eners_im, mat_var) =
     map_sum id (\<lambda>(s, st). (set_other_a f s, st)) (k_loop cs eig iks (self, eners, eners_im, mat_var))"
proof (induction iks arbitrary: self eners eners_im mat_var)
  case Nil
  then show ?case by simp
next
  case (Cons ik iks)
  show ?case
  proof (cases "construct_Hopfield cs self ik")
    case (Inl e)
    then show ?thesis
      by (simp add: construct_Hopfield_set_other_a bind_err_def)
  next
    case (Inr r)
    obtain mat s where r: "r = (mat, s)" by (cases r)
    obtain ener ener_im evec fraction_ex fraction_ph where
      d: "diagonalise eig (s\<lparr>self_numeig := length mat\<rparr>) mat
            = (ener, ener_im, evec, fraction_ex, fraction_ph)"
      by (cases "diagonalise eig (s\<lparr>self_numeig := length mat\<rparr>) mat") auto
    have d': "diagonalise eig ((set_other_a f s)\<lparr>self_numeig := length mat\<rparr>) mat
            = (ener, ener_im, evec, fraction_ex, fraction_ph)"
      using d by (simp add: set_other_a_def diagonalise_def)
    have upd: "(set_other_a f s)\<lparr>self_numeig := length mat,
                  self_eigvecs := self_eigvecs (set_other_a f s) @ [evec],
                  self_fractions_ex := self_fractions_ex (set_other_a f s) @ [fraction_ex],
                  self_fractions_ph := self_fractions_ph (set_other_a f s) @ [fraction_ph]\<rparr>
               = set_other_a f (s\<lparr>self_numeig := length mat,
                  self_eigvecs := self_eigvecs s @ [evec],
                  self_fractions_ex := self_fractions_ex s @ [fraction_ex],
                  self_fractions_ph := self_fractions_ph s @ [fraction_ph]\<rparr>)"
      by (simp add: set_other_a_def)
    show ?thesis
      using Cons.IH [of "s\<lparr>self_numeig := length mat,
                  self_eigvecs := self_eigvecs s @ [evec],
                  self_fractions_ex := self_fractions_ex s @ [fraction_ex],
                  self_fractions_ph := self_fractions_ph s @ [fraction_ph]\<rparr>"
                "eners @ [ener]" "eners_im @ [ener_im]" "Some mat"]
      by (simp add: construct_Hopfield_set_other_a Inr r bind_err_def Let_def d d' upd
          )
  qed
qed

lemma run_set_other_a:
  "run cs eig (set_other_a f self) kpoints = map_sum id (set_other_a f) (run cs eig self kpoints)"
proof (cases "self_exc_list self")
  case Nil
  then show ?thesis
    by (simp add: run_def set_other_a_def)
next
  case (Cons exc0 rest)
  let ?s = "self\<lparr>self_kpoints := kpoints, self_eigvecs := [], self_fractions_ex := [],
              self_fractions_ph := [], self_num_QWs := Suc (length rest),
              self_N_max := gme_numeig (self_gme self), self_M_max := exc_numeig_ex exc0\<rparr>"
  have pre: "(set_other_a f self)\<lparr>self_kpoints := kpoints, self_eigvecs := [],
              self_fractions_ex := [], self_fractions_ph := [],
              self_num_QWs := Suc (length rest),
              self_N_max := gme_numeig (self_gme self), self_M_max := exc_numeig_ex exc0\<rparr>
            = set_other_a f ?s"
    by (simp add: set_other_a_def)
  have len: "length (self_exc_list (set_other_a f self)) = length (self_exc_list self)"
    by (simp add: set_other_a_def Cons)
  have hd: "self_exc_list (set_other_a f self)
              = exc0 # map (\<lambda>(i, exc). exc\<lparr>exc_a := f i\<rparr>) (enumerate 1 rest)"
    by (simp add: set_other_a_def Cons)
  have g: "self_gme (set_other_a f self) = self_gme self"
    by (simp add: set_other_a_def)
  have fin: "(set_other_a f s)\<lparr>self_eners := a, self_eners_im := b, self_mat := c\<rparr>
               = set_other_a f (s\<lparr>self_eners := a, self_eners_im := b, self_mat := c\<rparr>)" for s a b c
    by (simp add: set_other_a_def)
  have L: "run cs eig (set_other_a f self) kpoints =
             bind_err (k_loop cs eig [0..<length kpoints] (set_other_a f ?s, [], [], None))
               (\<lambda>(self, eners, eners_im, mat_var).
                  (case mat_var of
                     None \<Rightarrow> Inl NameError
                   | Some mat \<Rightarrow>
                       Inr (self\<lparr>self_eners := eners, self_eners_im := eners_im, self_mat := mat\<rparr>)))"
    unfolding run_def Let_def
    by (simp add: hd len Cons g pre [symmetric])
  have R: "run cs eig self kpoints =
             bind_err (k_loop cs eig [0..<length kpoints] (?s, [], [], None))
               (\<lambda>(self, eners, eners_im, mat_var).
                  (case mat_var of
                     None \<Rightarrow> Inl NameError
                   | Some mat \<Rightarrow>
                       Inr (self\<lparr>self_eners := eners, self_eners_im := eners_im, self_mat := mat\<rparr>)))"
    unfolding run_def Let_def by (simp add: Cons)
  show ?thesis
    unfolding L R k_loop_set_other_a
    by (cases "k_loop cs eig [0..<length kpoints] (?s, [], [], None)")
      (auto simp: bind_err_def fin split: option.splits)
qed

lemma construct_Hopfield_state:
  assumes "construct_Hopfield cs self kind = Inr (M, s)"
  shows "s = self\<lparr>self_a := exc_a (hd (self_exc_list self))\<rparr>"
  using assms
  by (cases "self_exc_list self")
    (auto simp: construct_Hopfield_def Let_def bind_err_def split: sum.splits)

lemma ex_wells_a_blocks:
  fixes s :: hopfield_pol
  defines "s \<equiv> (ex_pol_run [(ex_exc 4 2)\<lparr>exc_a := 4\<rparr>, (ex_exc 4 2)\<lparr>exc_a := 9\<rparr>])\<lparr>self_a := 4\<rparr>"
  shows "pref ex_cs s = - \<i> / 2"
    and "C_block ex_cs s ((ex_exc 4 2)\<lparr>exc_a := x\<rparr>) 0 = [[- \<i>]]"
    and "D_block ex_cs s ((ex_exc 4 2)\<lparr>exc_a := x\<rparr>) 0 = [[1 / 2]]"
    and "C_total ex_cs s 0 = [[- \<i>, - \<i>]]"
    and "D_total ex_cs s 0 = [[1]]"
    and "diag_phot_bare ex_cs s 0 = [[7 / 4]]"
    and "diag_photon ex_cs s 0 = [[15 / 4]]"
    and "diag_exciton s 0 = [[2, 0], [0, 2]]"
proof -
  have f: "self_N_max s = 1" "self_M_max s = 1" "self_gme s = ex_gme" "self_a s = 4"
    "self_exc_list s = [(ex_exc 4 2)\<lparr>exc_a := 4\<rparr>, (ex_exc 4 2)\<lparr>exc_a := 9\<rparr>]"
    "self_num_QWs s = 2"
    by (simp_all add: s_def ex_pol_run_def ex_pol_def)
  show p: "pref ex_cs s = - \<i> / 2"
    by (simp add: pref_def f ex_cs_def)
  show C: "C_block ex_cs s ((ex_exc 4 2)\<lparr>exc_a := x\<rparr>) 0 = [[- \<i>]]" for x
    by (simp add: C_block_def C_entry_def p f sqrt_osc_str_def np_dot_def ncols_def
        ex_exc_def ex_gme_def)
  show D: "D_block ex_cs s ((ex_exc 4 2)\<lparr>exc_a := x\<rparr>) 0 = [[1 / 2]]" for x
    by (simp add: D_block_def C D_entry_def f) (simp add: ex_exc_def)
  show "C_total ex_cs s 0 = [[- \<i>, - \<i>]]"
    unfolding C_total_eq f by (simp add: hcat_def C)
  show Dt: "D_total ex_cs s 0 = [[1]]"
    unfolding D_total_eq f by (simp add: D zeros_def mat_add_def)
  show b: "diag_phot_bare ex_cs s 0 = [[7 / 4]]"
    by (simp add: diag_phot_bare_def f ex_gme_def lower_None ex_cs_def zeros_def
        fill_diagonal_def phot_energies_def)
  show "diag_photon ex_cs s 0 = [[15 / 4]]"
    unfolding diag_photon_def Dt b
    by (simp add: mat_real_def mat_scale_def mat_add_def)
  show "diag_exciton s 0 = [[2, 0], [0, 2]]"
    unfolding diag_exciton_def f
    by (simp add: ex_exc_def zeros_def fill_diagonal_def numeral_2_eq_2)
qed

lemma ex_wells_a:
  "construct_Hopfield ex_cs (ex_pol_run [(ex_exc 4 2)\<lparr>exc_a := 4\<rparr>, (ex_exc 4 2)\<lparr>exc_a := 9\<rparr>]) 0 =
     Inr ([[15 / 4, - 1, - 1, - 1, - 1, - 1],
           [- 1, 2, 0, 1, 0, 0],
           [- 1, 0, 2, 1, 0, 0],
           [1, - 1, - 1, - (15 / 4), - 1, - 1],
           [1, 0, 0, - 1, - 2, 0],
           [1, 0, 0, - 1, 0, - 2]],
          (ex_pol_run [(ex_exc 4 2)\<lparr>exc_a := 4\<rparr>, (ex_exc 4 2)\<lparr>exc_a := 9\<rparr>])\<lparr>self_a := 4\<rparr>)"
proof -
  let ?excs = "[(ex_exc 4 2)\<lparr>exc_a := 4\<rparr>, (ex_exc 4 2)\<lparr>exc_a := 9\<rparr>]"
  have "construct_Hopfield ex_cs (ex_pol_run ?excs) 0 =
          Inr (hopfield_blocks
                 (diag_photon ex_cs ((ex_pol_run ?excs)\<lparr>self_a := exc_a (hd (self_exc_list (ex_pol_run ?excs)))\<rparr>) 0)
                 (C_total ex_cs ((ex_pol_run ?excs)\<lparr>self_a := exc_a (hd (self_exc_list (ex_pol_run ?excs)))\<rparr>) 0)
                 (D_block ex_cs ((ex_pol_run ?excs)\<lparr>self_a := exc_a (hd (self_exc_list (ex_pol_run ?excs)))\<rparr>)
                    (last (self_exc_list (ex_pol_run ?excs))) 0)
                 (diag_exciton ((ex_pol_run ?excs)\<lparr>self_a := exc_a (hd (self_exc_list (ex_pol_run ?excs)))\<rparr>) 0),
               (ex_pol_run ?excs)\<lparr>self_a := exc_a (hd (self_exc_list (ex_pol_run ?excs)))\<rparr>)"
    by (intro construct_Hopfield_eq) (simp_all add: ex_pol_run_def ex_pol_def)
  moreover have "self_exc_list (ex_pol_run ?excs) = ?excs"
    by (simp add: ex_pol_run_def ex_pol_def)
  ultimately have "construct_Hopfield ex_cs (ex_pol_run ?excs) 0 =
          Inr (hopfield_blocks [[15 / 4]] [[- \<i>, - \<i>]] [[1 / 2]] [[2, 0], [0, 2]],
               (ex_pol_run ?excs)\<lparr>self_a := 4\<rparr>)"
    by (simp add: ex_wells_a_blocks)
  then show ?thesis
    by (simp add: hopfield_blocks_rows hcat_def mat_scale_def mat_neg_def mat_conjugate_def
        mat_T_def ncols_def zeros_def numeral_2_eq_2)
qed

text \<open>
  C10. The lattice constant that enters the coupling prefactor and the conversion factor
  is that of the first quantum well, for all quantum wells: after the assembler has run,
  the prefactor is \<^verbatim>\<open>-1j * sqrt(hbar**2 * e**2 / (4 * m_e * epsilon_0)) / e / sqrt(a1)\<close> with
  \<^verbatim>\<open>a1\<close> the lattice constant of the first quantum well, every entry of the coupling block
  of every quantum well is that prefactor times its overlap sum, the photonic energies are
  the frequencies times \<^verbatim>\<open>h_eV_Hz * c / a1\<close>, and the matrix is built of these blocks. The lattice constants of the other
  quantum wells affect nothing: replacing them changes nothing but the list of quantum wells
  itself (\<^verbatim>\<open>run\<close> and the assembler return the same energies, linewidths, eigenvectors,
  fractions and matrix), and the coupling block builder does not read the lattice constant
  of its quantum well.
\<close>

theorem lattice_constant_of_first_well:
  "run cs eig (set_other_a f self) kpoints = map_sum id (set_other_a f) (run cs eig self kpoints)
   \<and> construct_Hopfield cs (set_other_a f self) kind
       = map_sum id (\<lambda>(M, s). (M, set_other_a f s)) (construct_Hopfield cs self kind)
   \<and> calculate_C_D cs self (exc\<lparr>exc_a := x\<rparr>) kind = calculate_C_D cs self exc kind
   \<and> (\<forall>M s. construct_Hopfield cs self kind = Inr (M, s)
         \<longrightarrow> self_a s = exc_a (hd (self_exc_list self))
           \<and> pref cs s
               = - \<i> * complex_of_real
                         (sqrt ((cs_hbar cs)\<^sup>2 * (cs_e cs)\<^sup>2 / (4 * cs_m_e cs * cs_epsilon_0 cs)))
                   / complex_of_real (cs_e cs)
                   / complex_of_real (sqrt (exc_a (hd (self_exc_list self))))
           \<and> (\<forall>e. fst (calculate_C_D cs s e kind)
                 = map (\<lambda>n. map (\<lambda>nu.
                     (- \<i> * complex_of_real
                         (sqrt ((cs_hbar cs)\<^sup>2 * (cs_e cs)\<^sup>2 / (4 * cs_m_e cs * cs_epsilon_0 cs)))
                       / complex_of_real (cs_e cs)
                       / complex_of_real (sqrt (exc_a (hd (self_exc_list self)))))
                     * sum_list (map2 (*)
                         (np_dot (sqrt_osc_str e)
                            (gme_ft_field_xy (self_gme self) ''E'' kind n (exc_z e)))
                         (map cnj (exc_ft_wavef_xy e kind nu))))
                     [0..<self_M_max self]) [0..<self_N_max self])
           \<and> diag_phot_bare cs s kind
               = (if lower (gme_symmetry (self_gme self)) = ''none''
                    \<or> lower (gme_symmetry (self_gme self)) = ''both''
                  then fill_diagonal (zeros (self_N_max self) (self_N_max self))
                         (phot_energies (cs_h_eV_Hz cs * cs_c cs / exc_a (hd (self_exc_list self)))
                            (gme_freqs (self_gme self) kind) (gme_freqs_im (self_gme self) kind))
                  else if lower (gme_symmetry (self_gme self)) = ''odd''
                  then fill_diagonal (zeros (self_N_max self) (self_N_max self))
                         (phot_energies (cs_h_eV_Hz cs * cs_c cs / exc_a (hd (self_exc_list self)))
                            (gme_freqs_odd (self_gme self) kind)
                            (gme_freqs_im_odd (self_gme self) kind))
                  else if lower (gme_symmetry (self_gme self)) = ''even''
                  then fill_diagonal (zeros (self_N_max self) (self_N_max self))
                         (phot_energies (cs_h_eV_Hz cs * cs_c cs / exc_a (hd (self_exc_list self)))
                            (gme_freqs_even (self_gme self) kind)
                            (gme_freqs_im_even (self_gme self) kind))
                  else zeros (self_N_max self) (self_N_max self))
           \<and> (self_num_QWs self = length (self_exc_list self)
                \<and> 0 < self_N_max self \<and> 0 < self_M_max self
               \<longrightarrow> M = hopfield_blocks (diag_photon cs s kind) (C_total cs s kind)
                         (D_block cs s (last (self_exc_list self)) kind) (diag_exciton s kind)))"
proof -
  have "self_a s = exc_a (hd (self_exc_list self))
           \<and> pref cs s
               = - \<i> * complex_of_real
                         (sqrt ((cs_hbar cs)\<^sup>2 * (cs_e cs)\<^sup>2 / (4 * cs_m_e cs * cs_epsilon_0 cs)))
                   / complex_of_real (cs_e cs)
                   / complex_of_real (sqrt (exc_a (hd (self_exc_list self))))
           \<and> (\<forall>e. fst (calculate_C_D cs s e kind)
                 = map (\<lambda>n. map (\<lambda>nu.
                     (- \<i> * complex_of_real
                         (sqrt ((cs_hbar cs)\<^sup>2 * (cs_e cs)\<^sup>2 / (4 * cs_m_e cs * cs_epsilon_0 cs)))
                       / complex_of_real (cs_e cs)
                       / complex_of_real (sqrt (exc_a (hd (self_exc_list self)))))
                     * sum_list (map2 (*)
                         (np_dot (sqrt_osc_str e)
                            (gme_ft_field_xy (self_gme self) ''E'' kind n (exc_z e)))
                         (map cnj (exc_ft_wavef_xy e kind nu))))
                     [0..<self_M_max self]) [0..<self_N_max self])
           \<and> diag_phot_bare cs s kind
               = (if lower (gme_symmetry (self_gme self)) = ''none''
                    \<or> lower (gme_symmetry (self_gme self)) = ''both''
                  then fill_diagonal (zeros (self_N_max self) (self_N_max self))
                         (phot_energies (cs_h_eV_Hz cs * cs_c cs / exc_a (hd (self_exc_list self)))
                            (gme_freqs (self_gme self) kind) (gme_freqs_im (self_gme self) kind))
                  else if lower (gme_symmetry (self_gme self)) = ''odd''
                  then fill_diagonal (zeros (self_N_max self) (self_N_max self))
                         (phot_energies (cs_h_eV_Hz cs * cs_c cs / exc_a (hd (self_exc_list self)))
                            (gme_freqs_odd (self_gme self) kind)
                            (gme_freqs_im_odd (self_gme self) kind))
                  else if lower (gme_symmetry (self_gme self)) = ''even''
                  then fill_diagonal (zeros (self_N_max self) (self_N_max self))
                         (phot_energies (cs_h_eV_Hz cs * cs_c cs / exc_a (hd (self_exc_list self)))
                            (gme_freqs_even (self_gme self) kind)
                            (gme_freqs_im_even (self_gme self) kind))
                  else zeros (self_N_max self) (self_N_max self))
           \<and> (self_num_QWs self = length (self_exc_list self)
                \<and> 0 < self_N_max self \<and> 0 < self_M_max self
               \<longrightarrow> M = hopfield_blocks (diag_photon cs s kind) (C_total cs s kind)
                         (D_block cs s (last (self_exc_list self)) kind) (diag_exciton s kind))"
    if run: "construct_Hopfield cs self kind = Inr (M, s)" for M s
  proof -
    have s: "s = self\<lparr>self_a := exc_a (hd (self_exc_list self))\<rparr>"
      using run by (rule construct_Hopfield_state)
    have ne: "self_exc_list self \<noteq> []"
      using run by (auto simp: construct_Hopfield_def)
    have a: "self_a s = exc_a (hd (self_exc_list self))"
      by (simp add: s)
    have p: "pref cs s
               = - \<i> * complex_of_real
                         (sqrt ((cs_hbar cs)\<^sup>2 * (cs_e cs)\<^sup>2 / (4 * cs_m_e cs * cs_epsilon_0 cs)))
                   / complex_of_real (cs_e cs)
                   / complex_of_real (sqrt (exc_a (hd (self_exc_list self))))"
      by (simp add: pref_def a)
    have C: "fst (calculate_C_D cs s e kind)
                 = map (\<lambda>n. map (\<lambda>nu.
                     (- \<i> * complex_of_real
                         (sqrt ((cs_hbar cs)\<^sup>2 * (cs_e cs)\<^sup>2 / (4 * cs_m_e cs * cs_epsilon_0 cs)))
                       / complex_of_real (cs_e cs)
                       / complex_of_real (sqrt (exc_a (hd (self_exc_list self)))))
                     * sum_list (map2 (*)
                         (np_dot (sqrt_osc_str e)
                            (gme_ft_field_xy (self_gme self) ''E'' kind n (exc_z e)))
                         (map cnj (exc_ft_wavef_xy e kind nu))))
                     [0..<self_M_max self]) [0..<self_N_max self]" for e
      unfolding calculate_C_D_eq fst_conv C_block_def C_entry_def p
      by (simp add: s)
    have b: "diag_phot_bare cs s kind
               = (if lower (gme_symmetry (self_gme self)) = ''none''
                    \<or> lower (gme_symmetry (self_gme self)) = ''both''
                  then fill_diagonal (zeros (self_N_max self) (self_N_max self))
                         (phot_energies (cs_h_eV_Hz cs * cs_c cs / exc_a (hd (self_exc_list self)))
                            (gme_freqs (self_gme self) kind) (gme_freqs_im (self_gme self) kind))
                  else if lower (gme_symmetry (self_gme self)) = ''odd''
                  then fill_diagonal (zeros (self_N_max self) (self_N_max self))
                         (phot_energies (cs_h_eV_Hz cs * cs_c cs / exc_a (hd (self_exc_list self)))
                            (gme_freqs_odd (self_gme self) kind)
                            (gme_freqs_im_odd (self_gme self) kind))
                  else if lower (gme_symmetry (self_gme self)) = ''even''
                  then fill_diagonal (zeros (self_N_max self) (self_N_max self))
                         (phot_energies (cs_h_eV_Hz cs * cs_c cs / exc_a (hd (self_exc_list self)))
                            (gme_freqs_even (self_gme self) kind)
                            (gme_freqs_im_even (self_gme self) kind))
                  else zeros (self_N_max self) (self_N_max self))"
      unfolding diag_phot_bare_def Let_def by (simp add: s)
    have m: "M = hopfield_blocks (diag_photon cs s kind) (C_total cs s kind)
                   (D_block cs s (last (self_exc_list self)) kind) (diag_exciton s kind)"
      if "self_num_QWs self = length (self_exc_list self)"
        "0 < self_N_max self" "0 < self_M_max self"
      using construct_Hopfield_eq [OF ne that, of cs kind] run by (simp add: s)
    show ?thesis
      using a p C b m by blast
  qed
  then show ?thesis
    using run_set_other_a construct_Hopfield_set_other_a calculate_C_D_exc_a by blast
qed

theorem lattice_constant_of_first_well_witness:
  "construct_Hopfield ex_cs (ex_pol_run [(ex_exc 4 2)\<lparr>exc_a := 4\<rparr>, (ex_exc 4 2)\<lparr>exc_a := 9\<rparr>]) 0 =
     Inr ([[15 / 4, - 1, - 1, - 1, - 1, - 1],
           [- 1, 2, 0, 1, 0, 0],
           [- 1, 0, 2, 1, 0, 0],
           [1, - 1, - 1, - (15 / 4), - 1, - 1],
           [1, 0, 0, - 1, - 2, 0],
           [1, 0, 0, - 1, 0, - 2]],
          (ex_pol_run [(ex_exc 4 2)\<lparr>exc_a := 4\<rparr>, (ex_exc 4 2)\<lparr>exc_a := 9\<rparr>])\<lparr>self_a := 4\<rparr>)
   \<and> self_a ((ex_pol_run [(ex_exc 4 2)\<lparr>exc_a := 4\<rparr>, (ex_exc 4 2)\<lparr>exc_a := 9\<rparr>])\<lparr>self_a := 4\<rparr>)
       = exc_a (hd (self_exc_list (ex_pol_run [(ex_exc 4 2)\<lparr>exc_a := 4\<rparr>, (ex_exc 4 2)\<lparr>exc_a := 9\<rparr>])))
   \<and> exc_a (hd (self_exc_list (ex_pol_run [(ex_exc 4 2)\<lparr>exc_a := 4\<rparr>, (ex_exc 4 2)\<lparr>exc_a := 9\<rparr>]))) = 4
   \<and> pref ex_cs ((ex_pol_run [(ex_exc 4 2)\<lparr>exc_a := 4\<rparr>, (ex_exc 4 2)\<lparr>exc_a := 9\<rparr>])\<lparr>self_a := 4\<rparr>)
       = - \<i> / 2
   \<and> fst (calculate_C_D ex_cs
          ((ex_pol_run [(ex_exc 4 2)\<lparr>exc_a := 4\<rparr>, (ex_exc 4 2)\<lparr>exc_a := 9\<rparr>])\<lparr>self_a := 4\<rparr>)
          ((ex_exc 4 2)\<lparr>exc_a := 9\<rparr>) 0) = [[- \<i>]]
   \<and> diag_phot_bare ex_cs
          ((ex_pol_run [(ex_exc 4 2)\<lparr>exc_a := 4\<rparr>, (ex_exc 4 2)\<lparr>exc_a := 9\<rparr>])\<lparr>self_a := 4\<rparr>) 0
       = [[7 / 4]]"
proof -
  let ?self = "ex_pol_run [(ex_exc 4 2)\<lparr>exc_a := 4\<rparr>, (ex_exc 4 2)\<lparr>exc_a := 9\<rparr>]"
  have "self_a (?self\<lparr>self_a := 4\<rparr>) = exc_a (hd (self_exc_list ?self))"
    using lattice_constant_of_first_well [where cs = ex_cs and self = ?self and kind = 0]
      ex_wells_a
    by blast
  moreover have "exc_a (hd (self_exc_list ?self)) = 4"
    by (simp add: ex_pol_run_def ex_pol_def)
  moreover have "fst (calculate_C_D ex_cs (?self\<lparr>self_a := 4\<rparr>) ((ex_exc 4 2)\<lparr>exc_a := 9\<rparr>) 0)
                   = [[- \<i>]]"
    by (simp add: calculate_C_D_eq ex_wells_a_blocks)
  ultimately show ?thesis
    using ex_wells_a ex_wells_a_blocks(1,6) by blast
qed

text \<open>Two quantum wells, the second with another lattice constant: the matrix is the same.\<close>

lemma ex_other_lattice_constant:
  "map_sum id fst (construct_Hopfield ex_cs (set_other_a (\<lambda>i. 5) (ex_pol_run [ex_exc 1 1, ex_exc 1 2])) 0)
     = map_sum id fst (construct_Hopfield ex_cs (ex_pol_run [ex_exc 1 1, ex_exc 1 2]) 0)"
  by (simp add: construct_Hopfield_set_other_a ex_two_wells)

section \<open>Power sums determine a multiset\<close>

lemma vandermonde_vanish:
  fixes c :: "complex \<Rightarrow> complex"
  assumes "finite A" "\<And>k. (\<Sum>a\<in>A. c a * a ^ k) = 0"
  shows "\<forall>a\<in>A. c a = 0"
  using assms
proof (induction A arbitrary: c rule: finite_induct)
  case empty
  then show ?case by simp
next
  case (insert b A)
  have split: "(\<Sum>a\<in>A. c a * a ^ k) = - (c b * b ^ k)" for k
    using insert.prems [of k] insert.hyps by (simp add: add_eq_0_iff)
  have "(\<Sum>a\<in>A. (c a * (a - b)) * a ^ k) = 0" for k
  proof -
    have "(\<Sum>a\<in>A. (c a * (a - b)) * a ^ k)
            = (\<Sum>a\<in>A. c a * a ^ Suc k) - b * (\<Sum>a\<in>A. c a * a ^ k)"
      by (simp add: sum_subtractf sum_distrib_left algebra_simps)
    also have "\<dots> = - (c b * b ^ Suc k) - b * - (c b * b ^ k)"
      by (simp only: split)
    also have "\<dots> = 0"
      by simp
    finally show ?thesis .
  qed
  then have "\<forall>a\<in>A. c a * (a - b) = 0"
    by (rule insert.IH)
  then have rest: "\<forall>a\<in>A. c a = 0"
    using insert.hyps by auto
  then have "c b = 0"
    using split [of 0] by simp
  with rest show ?case by simp
qed

lemma sum_list_count:
  fixes f :: "'a \<Rightarrow> complex"
  assumes "finite A" "set xs \<subseteq> A"
  shows "sum_list (map f xs) = (\<Sum>a\<in>A. of_nat (count (mset xs) a) * f a)"
  using assms(2)
proof (induction xs)
  case Nil
  then show ?case by simp
next
  case (Cons x xs)
  then have x: "x \<in> A" and xs: "set xs \<subseteq> A" by simp_all
  have "(\<Sum>a\<in>A. of_nat (count (mset (x # xs)) a) * f a)
          = (\<Sum>a\<in>A. (if a = x then f a else 0) + of_nat (count (mset xs) a) * f a)"
    by (rule sum.cong) (simp_all add: algebra_simps)
  also have "\<dots> = f x + (\<Sum>a\<in>A. of_nat (count (mset xs) a) * f a)"
    using assms(1) x by (simp add: sum.distrib)
  finally show ?case
    using Cons.IH [OF xs] by simp
qed

lemma power_sums_determine_mset:
  fixes xs ys :: "complex list"
  assumes len: "length xs = length ys"
    and pow: "\<And>k. 0 < k \<Longrightarrow> sum_list (map (\<lambda>x. x ^ k) xs) = sum_list (map (\<lambda>x. x ^ k) ys)"
  shows "mset xs = mset ys"
proof -
  let ?A = "set xs \<union> set ys"
  let ?c = "\<lambda>a. of_nat (count (mset xs) a) - of_nat (count (mset ys) a) :: complex"
  have all: "sum_list (map (\<lambda>x. x ^ k) xs) = sum_list (map (\<lambda>x. x ^ k) ys)" for k
  proof (cases "k = 0")
    case True
    then show ?thesis
      using len by (simp add: sum_list_triv)
  next
    case False
    then show ?thesis
      using pow by simp
  qed
  have "(\<Sum>a\<in>?A. ?c a * a ^ k) = 0" for k
  proof -
    have "(\<Sum>a\<in>?A. ?c a * a ^ k)
            = (\<Sum>a\<in>?A. of_nat (count (mset xs) a) * a ^ k)
              - (\<Sum>a\<in>?A. of_nat (count (mset ys) a) * a ^ k)"
      by (simp add: sum_subtractf algebra_simps)
    also have "\<dots> = sum_list (map (\<lambda>x. x ^ k) xs) - sum_list (map (\<lambda>x. x ^ k) ys)"
      by (simp add: sum_list_count [where A = ?A])
    finally show ?thesis
      by (simp add: all)
  qed
  then have zero: "\<forall>a\<in>?A. ?c a = 0"
    by (intro vandermonde_vanish) simp_all
  have "count (mset xs) a = count (mset ys) a" for a
  proof (cases "a \<in> ?A")
    case True
    with zero have "(of_nat (count (mset xs) a) :: complex) = of_nat (count (mset ys) a)"
      by simp
    then show ?thesis
      by (simp only: of_nat_eq_iff)
  next
    case False
    then have "a \<notin> set xs" "a \<notin> set ys"
      by simp_all
    then show ?thesis
      by (metis count_mset_0_iff)
  qed
  then show ?thesis
    by (rule multiset_eqI)
qed

section \<open>Traces of powers\<close>

lemma meqI: "(\<And>i j. i < n \<Longrightarrow> j < n \<Longrightarrow> A i j = B i j) \<Longrightarrow> meq n A B"
  by (simp add: meq_def)

lemma meqD: "meq n A B \<Longrightarrow> i < n \<Longrightarrow> j < n \<Longrightarrow> A i j = B i j"
  by (simp add: meq_def)

lemma meq_refl: "meq n A A"
  by (simp add: meq_def)

lemma meq_sym: "meq n A B \<Longrightarrow> meq n B A"
  by (simp add: meq_def)

lemma meq_trans [trans]: "meq n A B \<Longrightarrow> meq n B C \<Longrightarrow> meq n A C"
  by (simp add: meq_def)

lemma mm_assoc: "mm n (mm n A B) C = mm n A (mm n B C)"
proof (intro ext)
  fix i j
  have "mm n (mm n A B) C i j = (\<Sum>l<n. \<Sum>k<n. A i k * B k l * C l j)"
    by (simp add: mm_def sum_distrib_right)
  also have "\<dots> = (\<Sum>k<n. \<Sum>l<n. A i k * B k l * C l j)"
    by (rule sum.swap)
  also have "\<dots> = mm n A (mm n B C) i j"
    by (simp add: mm_def sum_distrib_left mult.assoc)
  finally show "mm n (mm n A B) C i j = mm n A (mm n B C) i j" .
qed

lemma mm_cong:
  assumes "meq n A A'" "meq n B B'"
  shows "meq n (mm n A B) (mm n A' B')"
proof (rule meqI)
  fix i j assume ij: "i < n" "j < n"
  have "(\<Sum>k<n. A i k * B k j) = (\<Sum>k<n. A' i k * B' k j)"
  proof (rule sum.cong [OF refl])
    fix k assume "k \<in> {..<n}"
    then have "k < n" by simp
    then show "A i k * B k j = A' i k * B' k j"
      using meqD [OF assms(1) ij(1)] meqD [OF assms(2) _ ij(2)] by simp
  qed
  then show "mm n A B i j = mm n A' B' i j"
    by (simp add: mm_def)
qed

lemma mm_idm_left: "meq n (mm n idm A) A"
proof (rule meqI)
  fix i j assume "i < n" "j < n"
  have "mm n idm A i j = (\<Sum>k<n. if k = i then A i j else 0)"
    unfolding mm_def by (intro sum.cong) (auto simp: idm_def)
  then show "mm n idm A i j = A i j"
    using \<open>i < n\<close> by simp
qed

lemma mm_idm_right: "meq n (mm n A idm) A"
proof (rule meqI)
  fix i j assume "i < n" "j < n"
  have "mm n A idm i j = (\<Sum>k<n. if k = j then A i j else 0)"
    unfolding mm_def by (intro sum.cong) (auto simp: idm_def)
  then show "mm n A idm i j = A i j"
    using \<open>j < n\<close> by simp
qed

lemma trc_cong:
  assumes "meq n A B"
  shows "trc n A = trc n B"
  unfolding trc_def
proof (rule sum.cong [OF refl])
  fix i assume "i \<in> {..<n}"
  then have "i < n" by simp
  then show "A i i = B i i"
    using assms by (simp add: meq_def)
qed

lemma trc_mm_commute: "trc n (mm n A B) = trc n (mm n B A)"
proof -
  have "trc n (mm n A B) = (\<Sum>i<n. \<Sum>k<n. A i k * B k i)"
    by (simp add: trc_def mm_def)
  also have "\<dots> = (\<Sum>k<n. \<Sum>i<n. A i k * B k i)"
    by (rule sum.swap)
  also have "\<dots> = trc n (mm n B A)"
    by (simp add: trc_def mm_def mult.commute)
  finally show ?thesis .
qed

lemma pw_intertwine:
  assumes "meq n (mm n M S) (mm n S U)"
  shows "meq n (mm n (pw n M k) S) (mm n S (pw n U k))"
proof (induction k)
  case 0
  have "meq n (mm n idm S) S" by (rule mm_idm_left)
  also have "meq n S (mm n S idm)" by (rule meq_sym) (rule mm_idm_right)
  finally show ?case by simp
next
  case (Suc k)
  have "meq n (mm n (pw n M (Suc k)) S) (mm n M (mm n (pw n M k) S))"
    by (simp add: mm_assoc meq_refl)
  also have "meq n (mm n M (mm n (pw n M k) S)) (mm n M (mm n S (pw n U k)))"
    by (intro mm_cong meq_refl Suc)
  also have "meq n (mm n M (mm n S (pw n U k))) (mm n (mm n M S) (pw n U k))"
    by (simp add: mm_assoc meq_refl)
  also have "meq n (mm n (mm n M S) (pw n U k)) (mm n (mm n S U) (pw n U k))"
    by (intro mm_cong meq_refl assms)
  also have "meq n (mm n (mm n S U) (pw n U k)) (mm n S (pw n U (Suc k)))"
    by (simp add: mm_assoc meq_refl)
  finally show ?case .
qed

lemma trc_similar:
  assumes MS: "meq n (mm n M S) (mm n S U)"
    and ST: "meq n (mm n S T) idm" and TS: "meq n (mm n T S) idm"
  shows "trc n (pw n M k) = trc n (pw n U k)"
proof -
  have "trc n (pw n M k) = trc n (mm n (pw n M k) idm)"
    by (rule trc_cong [OF meq_sym [OF mm_idm_right]])
  also have "\<dots> = trc n (mm n (pw n M k) (mm n S T))"
    by (rule trc_cong [OF mm_cong [OF meq_refl meq_sym [OF ST]]])
  also have "\<dots> = trc n (mm n (mm n (pw n M k) S) T)"
    by (simp add: mm_assoc)
  also have "\<dots> = trc n (mm n (mm n S (pw n U k)) T)"
    by (intro trc_cong mm_cong meq_refl pw_intertwine MS)
  also have "\<dots> = trc n (mm n T (mm n S (pw n U k)))"
    by (rule trc_mm_commute)
  also have "\<dots> = trc n (mm n (mm n T S) (pw n U k))"
    by (simp add: mm_assoc)
  also have "\<dots> = trc n (mm n idm (pw n U k))"
    by (intro trc_cong mm_cong meq_refl TS)
  also have "\<dots> = trc n (pw n U k)"
    by (intro trc_cong mm_idm_left)
  finally show ?thesis .
qed

lemma pw_upper:
  assumes "upper n U"
  shows "(\<forall>i<n. \<forall>j<i. pw n U k i j = 0) \<and> (\<forall>i<n. pw n U k i i = U i i ^ k)"
proof (induction k)
  case 0
  show ?case by (simp add: idm_def)
next
  case (Suc k)
  have low: "pw n U (Suc k) i j = 0" if "i < n" "j < i" for i j
  proof -
    have "U i l * pw n U k l j = 0" if "l < n" for l
    proof (cases "l < i")
      case True
      then show ?thesis using assms \<open>i < n\<close> by (simp add: upper_def)
    next
      case False
      then have "j < l" using \<open>j < i\<close> by simp
      then show ?thesis using Suc \<open>l < n\<close> by simp
    qed
    then have "\<forall>l\<in>{..<n}. U i l * pw n U k l j = 0"
      by simp
    then have "(\<Sum>l<n. U i l * pw n U k l j) = 0"
      by (rule sum.neutral)
    then show ?thesis
      by (simp add: mm_def)
  qed
  have dia: "pw n U (Suc k) i i = U i i ^ Suc k" if "i < n" for i
  proof -
    have "U i l * pw n U k l i = (if l = i then U i i * U i i ^ k else 0)" if "l < n" for l
    proof (cases "l < i")
      case True
      then show ?thesis using assms \<open>i < n\<close> by (simp add: upper_def)
    next
      case False
      show ?thesis
      proof (cases "l = i")
        case True
        then show ?thesis using Suc \<open>i < n\<close> by simp
      next
        case ne: False
        with False have "i < l" by simp
        then show ?thesis using Suc \<open>l < n\<close> ne by simp
      qed
    qed
    then have "(\<Sum>l<n. U i l * pw n U k l i) = (\<Sum>l<n. if l = i then U i i * U i i ^ k else 0)"
      by (intro sum.cong) simp_all
    then have "pw n U (Suc k) i i = (\<Sum>l<n. if l = i then U i i * U i i ^ k else 0)"
      by (simp add: mm_def)
    also have "\<dots> = U i i * U i i ^ k"
      using \<open>i < n\<close> by simp
    finally show ?thesis by simp
  qed
  from low dia show ?case by blast
qed

lemma trc_pw_upper:
  assumes "upper n U"
  shows "trc n (pw n U k) = sum_list (map (\<lambda>x. x ^ k) (map (\<lambda>i. U i i) [0..<n]))"
proof -
  have "trc n (pw n U k) = (\<Sum>i<n. U i i ^ k)"
    unfolding trc_def
  proof (rule sum.cong [OF refl])
    fix i assume "i \<in> {..<n}"
    then show "pw n U k i i = U i i ^ k"
      using pw_upper [OF assms, of k] by simp
  qed
  also have "\<dots> = sum_list (map (\<lambda>i. U i i ^ k) [0..<n])"
    by (simp only: interv_sum_list_conv_sum_set_nat set_upt atLeast0LessThan)
  finally show ?thesis
    by (simp only: map_map comp_def)
qed

section \<open>A spectrum symmetric under negation\<close>

lemma swap_halves_less: "i < 2 * h \<Longrightarrow> swap_halves h i < 2 * h"
  by (auto simp: swap_halves_def)

lemma swap_halves_invol: "i < 2 * h \<Longrightarrow> swap_halves h (swap_halves h i) = i"
  by (auto simp: swap_halves_def)

lemma swap_halves_bij: "bij_betw (swap_halves h) {..<2 * h} {..<2 * h}"
  by (rule bij_betw_byWitness [where f' = "swap_halves h"])
    (auto simp: swap_halves_invol swap_halves_less)

lemma swap_halves_eq_iff:
  "i < 2 * h \<Longrightarrow> j < 2 * h \<Longrightarrow> swap_halves h i = swap_halves h j \<longleftrightarrow> i = j"
  by (auto simp: swap_halves_def split: if_splits)

lemma mirror_algebra:
  fixes a b c e m q :: complex
  shows "- (a * b * m) * (c * (b * e * q)) = - 1 * c * (a * e * (m * q)) * (b * b)"
  by (simp add: algebra_simps)

lemma pw_mirrored:
  assumes "mirrored h sg M" "i < 2 * h" "j < 2 * h"
  shows "pw (2 * h) M k (swap_halves h i) (swap_halves h j) = (- 1) ^ k * (sg i * sg j * pw (2 * h) M k i j)"
  using assms(2,3)
proof (induction k arbitrary: i j)
  case 0
  then show ?case
    using assms(1) by (simp add: idm_def swap_halves_eq_iff mirrored_def)
next
  case (Suc k)
  let ?n = "2 * h"
  let ?p = "swap_halves h"
  have sq: "sg l * sg l = 1" if "l < ?n" for l
    using assms(1) that by (simp add: mirrored_def)
  have "pw ?n M (Suc k) (?p i) (?p j) = (\<Sum>l<?n. M (?p i) l * pw ?n M k l (?p j))"
    by (simp add: mm_def)
  also have "\<dots> = (\<Sum>l<?n. M (?p i) (?p l) * pw ?n M k (?p l) (?p j))"
    by (rule sum.reindex_bij_betw [OF swap_halves_bij, symmetric])
  also have "\<dots> = (\<Sum>l<?n. (- 1) ^ Suc k * (sg i * sg j * (M i l * pw ?n M k l j)))"
  proof (rule sum.cong [OF refl])
    fix l assume "l \<in> {..<?n}"
    then have l: "l < ?n" by simp
    have "M (?p i) (?p l) * pw ?n M k (?p l) (?p j)
            = - (sg i * sg l * M i l) * ((- 1) ^ k * (sg l * sg j * pw ?n M k l j))"
      using assms(1) Suc.prems l Suc.IH [OF l Suc.prems(2)] by (simp add: mirrored_def)
    also have "\<dots> = (- 1) ^ Suc k * (sg i * sg j * (M i l * pw ?n M k l j)) * (sg l * sg l)"
      by (simp only: power_Suc mirror_algebra)
    finally show "M (?p i) (?p l) * pw ?n M k (?p l) (?p j)
        = (- 1) ^ Suc k * (sg i * sg j * (M i l * pw ?n M k l j))"
      by (simp only: sq [OF l] mult_1_right)
  qed
  also have "\<dots> = (- 1) ^ Suc k * (sg i * sg j * pw ?n M (Suc k) i j)"
    by (simp only: sum_distrib_left [symmetric] pw.simps mm_def)
  finally show ?case .
qed

lemma trc_pw_mirrored:
  assumes "mirrored h sg M" "odd k"
  shows "trc (2 * h) (pw (2 * h) M k) = 0"
proof -
  let ?n = "2 * h"
  let ?p = "swap_halves h"
  have "trc ?n (pw ?n M k) = (\<Sum>i<?n. pw ?n M k (?p i) (?p i))"
    unfolding trc_def by (rule sum.reindex_bij_betw [OF swap_halves_bij, symmetric])
  also have "\<dots> = (\<Sum>i<?n. - pw ?n M k i i)"
  proof (rule sum.cong [OF refl])
    fix i assume "i \<in> {..<?n}"
    then have i: "i < ?n" by simp
    have "pw ?n M k (?p i) (?p i) = (- 1) ^ k * (sg i * sg i * pw ?n M k i i)"
      using assms(1) i i by (rule pw_mirrored)
    also have "\<dots> = - pw ?n M k i i"
      using assms i by (simp add: mirrored_def)
    finally show "pw ?n M k (?p i) (?p i) = - pw ?n M k i i" .
  qed
  also have "\<dots> = - trc ?n (pw ?n M k)"
    by (simp add: trc_def sum_negf)
  finally show ?thesis
    by simp
qed

lemma odd_power_sums_symmetric:
  fixes w :: "complex list"
  assumes "\<And>k. odd k \<Longrightarrow> sum_list (map (\<lambda>x. x ^ k) w) = 0"
  shows "mset (map uminus w) = mset w"
proof (rule power_sums_determine_mset)
  show "length (map uminus w) = length w" by simp
  fix k :: nat
  have "map (\<lambda>x. x ^ k) (map uminus w) = map (\<lambda>x. (- x) ^ k) w"
    by (simp only: map_map comp_def)
  also have "\<dots> = map (\<lambda>x. (- 1) ^ k * x ^ k) w"
    by (rule map_cong [OF refl]) (rule power_minus)
  finally have "sum_list (map (\<lambda>x. x ^ k) (map uminus w)) = sum_list (map (\<lambda>x. (- 1) ^ k * x ^ k) w)"
    by (rule arg_cong)
  also have "\<dots> = (- 1) ^ k * sum_list (map (\<lambda>x. x ^ k) w)"
    by (simp add: sum_list_const_mult)
  also have "\<dots> = sum_list (map (\<lambda>x. x ^ k) w)"
    using assms [of k] by (cases "even k") simp_all
  finally show "sum_list (map (\<lambda>x. x ^ k) (map uminus w)) = sum_list (map (\<lambda>x. x ^ k) w)" .
qed

lemma symmetric_half_nonneg:
  fixes w :: "complex list"
  assumes "mset (map uminus w) = mset w"
  shows "length w \<le> 2 * length (filter (\<lambda>x. Re x \<ge> 0) w)"
proof -
  have "length (filter (\<lambda>x. Re x < 0) w) = size (filter_mset (\<lambda>x. Re x < 0) (mset w))"
    by (simp only: mset_filter [symmetric] size_mset)
  also have "\<dots> = size (filter_mset (\<lambda>x. Re x < 0) (mset (map uminus w)))"
    by (simp only: assms)
  also have "\<dots> = length (filter (\<lambda>x. Re x < 0) (map uminus w))"
    by (simp only: mset_filter [symmetric] size_mset)
  also have "\<dots> = length (filter (\<lambda>x. 0 < Re x) w)"
    by (simp add: filter_map comp_def)
  also have "\<dots> \<le> length (filter (\<lambda>x. Re x \<ge> 0) w)"
    by (induction w) auto
  finally have "length (filter (\<lambda>x. Re x < 0) w) \<le> length (filter (\<lambda>x. Re x \<ge> 0) w)" .
  moreover have "length w = length (filter (\<lambda>x. Re x \<ge> 0) w) + length (filter (\<lambda>x. \<not> Re x \<ge> 0) w)"
    by (rule sum_length_filter_compl [symmetric])
  moreover have "filter (\<lambda>x. \<not> Re x \<ge> 0) w = filter (\<lambda>x. Re x < 0) w"
    by (rule filter_cong) auto
  ultimately show ?thesis
    by simp
qed

section \<open>The contract of the solver: shift and uniqueness\<close>

lemma eye_nth: "i < n \<Longrightarrow> j < n \<Longrightarrow> eye n ! i ! j = idm i j"
  by (auto simp: eye_def idm_def nth_list_update)

lemma fm_mat_add_eye:
  assumes "shape n n A"
  shows "meq n (fm (mat_add A (eye n))) (\<lambda>i j. fm A i j + idm i j)"
proof (rule meqI)
  fix i j assume ij: "i < n" "j < n"
  have "length (A ! i) = n"
    using assms ij(1) by (rule shape_row)
  moreover have "length A = n"
    using assms by (rule shape_length)
  moreover have "length (eye n) = n" "length (eye n ! i) = n"
    using ij by (simp_all add: eye_def)
  ultimately show "fm (mat_add A (eye n)) i j = fm A i j + idm i j"
    using ij by (simp add: fm_def mat_add_def eye_nth)
qed

lemma mm_add_left: "mm n (\<lambda>i j. A i j + B i j) C = (\<lambda>i j. mm n A C i j + mm n B C i j)"
  by (intro ext) (simp add: mm_def sum.distrib algebra_simps)

lemma mm_diff_right: "mm n C (\<lambda>i j. A i j - B i j) = (\<lambda>i j. mm n C A i j - mm n C B i j)"
  by (intro ext) (simp add: mm_def sum_subtractf algebra_simps)

lemma exact_eigenvalues_shift:
  assumes A: "shape (length A) (length A) A"
    and e: "exact_eigenvalues (mat_add A (eye (length A))) w"
  shows "exact_eigenvalues A (map (\<lambda>x. x - 1) w)"
proof -
  let ?n = "length A"
  have len: "length (mat_add A (eye ?n)) = ?n"
    by (simp add: mat_add_def eye_def)
  from e obtain S T U where
    AS: "meq ?n (mm ?n (fm (mat_add A (eye ?n))) S) (mm ?n S U)"
    and ST: "meq ?n (mm ?n S T) idm" and TS: "meq ?n (mm ?n T S) idm"
    and up: "upper ?n U" and w: "w = map (\<lambda>i. U i i) [0..<?n]"
    unfolding exact_eigenvalues_def len by blast
  let ?U = "\<lambda>i j. U i j - idm i j"
  have "meq ?n (mm ?n (\<lambda>i j. fm A i j + idm i j) S) (mm ?n (fm (mat_add A (eye ?n))) S)"
    by (intro mm_cong meq_refl meq_sym [OF fm_mat_add_eye [OF A]])
  then have sum: "meq ?n (mm ?n (\<lambda>i j. fm A i j + idm i j) S) (mm ?n S U)"
    using AS by (rule meq_trans)
  have "meq ?n (mm ?n (fm A) S) (mm ?n S ?U)"
  proof (rule meqI)
    fix i j assume ij: "i < ?n" "j < ?n"
    have "mm ?n (fm A) S i j + mm ?n idm S i j = mm ?n S U i j"
      using meqD [OF sum ij] by (simp add: mm_add_left)
    moreover have "mm ?n idm S i j = S i j"
      using meqD [OF mm_idm_left ij] .
    moreover have "mm ?n S idm i j = S i j"
      using meqD [OF mm_idm_right ij] .
    ultimately show "mm ?n (fm A) S i j = mm ?n S ?U i j"
      by (simp add: mm_diff_right eq_diff_eq)
  qed
  moreover have "upper ?n ?U"
    using up by (simp add: upper_def idm_def)
  moreover have "map (\<lambda>x. x - 1) w = map (\<lambda>i. ?U i i) [0..<?n]"
    by (simp add: w idm_def)
  ultimately show ?thesis
    unfolding exact_eigenvalues_def using ST TS by blast
qed

lemma exact_eigenvalues_power_sum:
  assumes "exact_eigenvalues A w"
  shows "sum_list (map (\<lambda>x. x ^ k) w) = trc (length A) (pw (length A) (fm A) k)"
    and "length w = length A"
proof -
  from assms obtain S T U where
    AS: "meq (length A) (mm (length A) (fm A) S) (mm (length A) S U)"
    and ST: "meq (length A) (mm (length A) S T) idm"
    and TS: "meq (length A) (mm (length A) T S) idm"
    and up: "upper (length A) U" and w: "w = map (\<lambda>i. U i i) [0..<length A]"
    unfolding exact_eigenvalues_def by blast
  show "length w = length A"
    by (simp add: w)
  show "sum_list (map (\<lambda>x. x ^ k) w) = trc (length A) (pw (length A) (fm A) k)"
    unfolding w trc_pw_upper [OF up, symmetric]
    by (rule trc_similar [OF AS ST TS, symmetric])
qed

lemma exact_eigenvalues_unique:
  assumes "exact_eigenvalues A w" "exact_eigenvalues A w'"
  shows "mset w = mset w'"
proof (rule power_sums_determine_mset)
  show "length w = length w'"
    using assms by (simp add: exact_eigenvalues_power_sum(2))
  show "sum_list (map (\<lambda>x. x ^ k) w) = sum_list (map (\<lambda>x. x ^ k) w')" for k
    using assms by (simp add: exact_eigenvalues_power_sum(1))
qed

text \<open>
  C5. With an exact solver, the identity shift of the eigen-decomposition step is a no-op
  on the eigenvalues: the eigenvalues found for \<open>M + I\<close>, less 1 each, are as a multiset
  the eigenvalues of \<open>M\<close> (any list \<open>w\<close> of the eigenvalues of \<open>M\<close> with their multiplicities;
  for a non-degenerate \<open>M\<close> each occurs once).
\<close>

theorem eig_shift_unshift:
  assumes "shape (length M) (length M) M"
    and "exact_eig eig (mat_add M (eye (length M)))"
    and "exact_eigenvalues M w"
  shows "mset (fst (eig_shifted eig M)) = mset w"
proof -
  have "exact_eigenvalues M (map (\<lambda>x. x - 1) (fst (eig (mat_add M (eye (length M))))))"
    using assms(1,2) by (intro exact_eigenvalues_shift) (simp_all add: exact_eig_def)
  then have "mset (map (\<lambda>x. x - 1) (fst (eig (mat_add M (eye (length M)))))) = mset w"
    using assms(3) by (rule exact_eigenvalues_unique)
  then show ?thesis
    by (simp add: eig_shifted_def case_prod_unfold Let_def)
qed

lemma exact_eigenvalues_triangular:
  assumes "\<forall>i<length A. \<forall>j<i. A ! i ! j = 0"
  shows "exact_eigenvalues A (map (\<lambda>i. A ! i ! i) [0..<length A])"
proof -
  let ?n = "length A"
  have "meq ?n (mm ?n (fm A) idm) (mm ?n idm (fm A))"
    using mm_idm_right [of ?n "fm A"] mm_idm_left [of ?n "fm A"] by (simp add: meq_def)
  moreover have "meq ?n (mm ?n idm idm) idm"
    by (rule mm_idm_left)
  moreover have "upper ?n (fm A)"
    using assms by (simp add: upper_def fm_def)
  moreover have "map (\<lambda>i. A ! i ! i) [0..<?n] = map (\<lambda>i. fm A i i) [0..<?n]"
    by (simp add: fm_def)
  ultimately show ?thesis
    unfolding exact_eigenvalues_def by blast
qed

lemma exact_eig_of_diag:
  assumes sh: "shape (length A) (length A) A"
    and diag: "\<forall>i<length A. \<forall>j<length A. i \<noteq> j \<longrightarrow> A ! i ! j = 0"
  shows "exact_eig eig_of_diag A"
proof -
  let ?n = "length A"
  have "exact_eigenvalues A (map (\<lambda>i. A ! i ! i) [0..<?n])"
    using diag by (intro exact_eigenvalues_triangular) auto
  moreover have "shape ?n ?n (eye ?n)"
    by (rule shapeI) (simp_all add: eye_def)
  moreover have "meq ?n (mm ?n (fm A) (fm (eye ?n)))
                   (\<lambda>i j. fm (eye ?n) i j * map (\<lambda>i. A ! i ! i) [0..<?n] ! j)"
  proof (rule meqI)
    fix i j assume ij: "i < ?n" "j < ?n"
    have "meq ?n (mm ?n (fm A) (fm (eye ?n))) (mm ?n (fm A) idm)"
      by (intro mm_cong meq_refl meqI) (simp add: fm_def eye_nth)
    then have "mm ?n (fm A) (fm (eye ?n)) i j = mm ?n (fm A) idm i j"
      using ij by (rule meqD)
    also have "\<dots> = fm A i j"
      using mm_idm_right ij by (rule meqD)
    also have "\<dots> = idm i j * A ! j ! j"
      using diag ij by (auto simp: fm_def idm_def)
    finally show "mm ?n (fm A) (fm (eye ?n)) i j
        = fm (eye ?n) i j * map (\<lambda>i. A ! i ! i) [0..<?n] ! j"
      using ij by (simp add: fm_def eye_nth)
  qed
  ultimately show ?thesis
    by (simp add: exact_eig_def eig_of_diag_def)
qed

theorem eig_shift_unshift_witness:
  "shape (length [[2, 0], [0, 5 :: complex]]) (length [[2, 0], [0, 5 :: complex]])
     [[2, 0], [0, 5 :: complex]]
   \<and> exact_eig eig_of_diag (mat_add [[2, 0], [0, 5]] (eye (length [[2, 0], [0, 5 :: complex]])))
   \<and> exact_eigenvalues [[2, 0], [0, 5]] [2, 5]
   \<and> fst (eig_shifted eig_of_diag [[2, 0], [0, 5]]) = [2, 5]
   \<and> mset (fst (eig_shifted eig_of_diag [[2, 0], [0, 5]])) = mset [2, 5]"
proof -
  let ?M = "[[2, 0], [0, 5 :: complex]]"
  have sh: "shape (length ?M) (length ?M) ?M"
    by (simp add: shape_def)
  have plus: "mat_add ?M (eye (length ?M)) = [[3, 0], [0, 6]]"
    by (simp add: mat_add_def eye_def numeral_2_eq_2)
  have ex: "exact_eig eig_of_diag (mat_add ?M (eye (length ?M)))"
    unfolding plus
    by (rule exact_eig_of_diag) (simp_all add: shape_def numeral_2_eq_2 less_Suc_eq)
  have "exact_eigenvalues ?M (map (\<lambda>i. ?M ! i ! i) [0..<length ?M])"
    by (rule exact_eigenvalues_triangular) (simp add: numeral_2_eq_2 less_Suc_eq)
  then have w: "exact_eigenvalues ?M [2, 5]"
    by (simp add: numeral_2_eq_2)
  have v: "fst (eig_shifted eig_of_diag ?M) = [2, 5]"
    by (simp add: eig_shifted_def eig_of_diag_def mat_add_def eye_def numeral_2_eq_2)
  from eig_shift_unshift [OF sh ex w] sh ex w v show ?thesis
    by blast
qed

section \<open>The spectrum of the Hopfield matrix is symmetric\<close>

lemma row_mirror_photon:
  fixes a b c :: cvec
  assumes "length a = N" "length b = K" "length c = N" "j < 2 * (N + K)"
  shows "(map uminus c @ b @ map uminus a @ b) ! swap_halves (N + K) j
           = - (hopfield_sign N (N + K) j * (a @ b @ c @ b) ! j)"
proof -
  consider "j < N" | "N \<le> j" "j < N + K" | "N + K \<le> j" "j < N + K + N" | "N + K + N \<le> j"
    by linarith
  then show ?thesis
  proof cases
    case 1
    then show ?thesis
      using assms by (auto simp: swap_halves_def hopfield_sign_def nth_append)
  next
    case 2
    then show ?thesis
      using assms by (auto simp: swap_halves_def hopfield_sign_def nth_append)
  next
    case 3
    then show ?thesis
      using assms by (auto simp: swap_halves_def hopfield_sign_def nth_append)
  next
    case 4
    then show ?thesis
      using assms by (auto simp: swap_halves_def hopfield_sign_def nth_append)
  qed
qed

lemma row_mirror_exciton:
  fixes a b c d :: cvec
  assumes "length a = N" "length b = K" "length c = N" "length d = K" "j < 2 * (N + K)"
  shows "(c @ map uminus d @ a @ map uminus b) ! swap_halves (N + K) j
           = hopfield_sign N (N + K) j * (a @ b @ c @ d) ! j"
proof -
  consider "j < N" | "N \<le> j" "j < N + K" | "N + K \<le> j" "j < N + K + N" | "N + K + N \<le> j"
    by linarith
  then show ?thesis
  proof cases
    case 1
    then show ?thesis
      using assms by (auto simp: swap_halves_def hopfield_sign_def nth_append)
  next
    case 2
    then show ?thesis
      using assms by (auto simp: swap_halves_def hopfield_sign_def nth_append)
  next
    case 3
    then show ?thesis
      using assms by (auto simp: swap_halves_def hopfield_sign_def nth_append)
  next
    case 4
    then show ?thesis
      using assms by (auto simp: swap_halves_def hopfield_sign_def nth_append)
  qed
qed

lemma mat_scale_nth: "i < length A \<Longrightarrow> mat_scale k A ! i = map ((*) k) (A ! i)"
  by (simp add: mat_scale_def)

lemma mat_neg_nth: "i < length A \<Longrightarrow> mat_neg A ! i = map uminus (A ! i)"
  by (simp add: mat_neg_def)

lemma hopfield_blocks_row:
  assumes P: "shape N N P" and C: "shape N K C" and D: "shape N N D" and X: "shape K K X"
    and pos: "0 < N"
  shows "i < N \<Longrightarrow> hopfield_blocks P C D X ! i
           = P ! i @ mat_scale (- \<i>) C ! i @ mat_scale (- 2) D ! i @ mat_scale (- \<i>) C ! i"
    and "i < N \<Longrightarrow> hopfield_blocks P C D X ! (i + (N + K))
           = mat_scale 2 D ! i @ mat_scale (- \<i>) C ! i @ mat_neg P ! i @ mat_scale (- \<i>) C ! i"
    and "i < K \<Longrightarrow> hopfield_blocks P C D X ! (N + i)
           = mat_scale \<i> (mat_conjugate (mat_T C)) ! i @ X ! i
             @ mat_scale (- \<i>) (mat_conjugate (mat_T C)) ! i @ zeros K K ! i"
    and "i < K \<Longrightarrow> hopfield_blocks P C D X ! (N + i + (N + K))
           = mat_scale (- \<i>) (mat_conjugate (mat_T C)) ! i @ zeros K K ! i
             @ mat_scale \<i> (mat_conjugate (mat_T C)) ! i @ mat_neg X ! i"
proof -
  let ?Cd = "mat_conjugate (mat_T C)"
  have Cd: "shape K N ?Cd"
    using C pos by (intro shape_mat_conjugate shape_mat_T)
  have lX: "length X = K"
    using X by (rule shape_length)
  let ?R0 = "hcat [P, mat_scale (- \<i>) C, mat_scale (- 2) D, mat_scale (- \<i>) C]"
  let ?R1 = "hcat [mat_scale \<i> ?Cd, X, mat_scale (- \<i>) ?Cd, zeros K K]"
  let ?R2 = "hcat [mat_scale 2 D, mat_scale (- \<i>) C, mat_neg P, mat_scale (- \<i>) C]"
  let ?R3 = "hcat [mat_scale (- \<i>) ?Cd, zeros K K, mat_scale \<i> ?Cd, mat_neg X]"
  have M: "hopfield_blocks P C D X = ?R0 @ ?R1 @ ?R2 @ ?R3"
    by (simp add: hopfield_blocks_rows lX)
  have l: "length ?R0 = N" "length ?R1 = K" "length ?R2 = N" "length ?R3 = K"
    using P Cd D by (simp_all add: length_hcat4 shape_length mat_scale_def)
  have lP: "length P = N" and lD: "length (mat_scale 2 D) = N"
    and lCd: "length (mat_scale \<i> ?Cd) = K" "length (mat_scale (- \<i>) ?Cd) = K"
    using P D Cd by (simp_all add: shape_length mat_scale_def)
  show "hopfield_blocks P C D X ! i
           = P ! i @ mat_scale (- \<i>) C ! i @ mat_scale (- 2) D ! i @ mat_scale (- \<i>) C ! i"
    if "i < N"
    using that by (simp add: M nth_append l hcat4_nth lP)
  show "hopfield_blocks P C D X ! (i + (N + K))
           = mat_scale 2 D ! i @ mat_scale (- \<i>) C ! i @ mat_neg P ! i @ mat_scale (- \<i>) C ! i"
    if "i < N"
  proof -
    have "(?R0 @ ?R1 @ ?R2 @ ?R3) ! (i + (N + K)) = ?R2 ! i"
      using that l by (simp add: nth_append)
    then show ?thesis
      using that by (simp add: M hcat4_nth lD)
  qed
  show "hopfield_blocks P C D X ! (N + i)
           = mat_scale \<i> ?Cd ! i @ X ! i @ mat_scale (- \<i>) ?Cd ! i @ zeros K K ! i"
    if "i < K"
  proof -
    have "(?R0 @ ?R1 @ ?R2 @ ?R3) ! (N + i) = ?R1 ! i"
      using that l by (simp add: nth_append)
    then show ?thesis
      using that by (simp add: M hcat4_nth lCd)
  qed
  show "hopfield_blocks P C D X ! (N + i + (N + K))
           = mat_scale (- \<i>) ?Cd ! i @ zeros K K ! i @ mat_scale \<i> ?Cd ! i @ mat_neg X ! i"
    if "i < K"
  proof -
    have "(?R0 @ ?R1 @ ?R2 @ ?R3) ! (N + i + (N + K)) = ?R3 ! i"
      using that l by (simp add: nth_append)
    then show ?thesis
      using that by (simp add: M hcat4_nth lCd)
  qed
qed

lemma hopfield_sign_swap:
  "N \<le> h \<Longrightarrow> j < 2 * h \<Longrightarrow> hopfield_sign N h (swap_halves h j) = hopfield_sign N h j"
  by (auto simp: hopfield_sign_def swap_halves_def)

lemma hopfield_sign_square: "hopfield_sign N h i * hopfield_sign N h i = 1"
  by (simp add: hopfield_sign_def)

lemma hopfield_blocks_mirror_top:
  assumes P: "shape N N P" and C: "shape N K C" and D: "shape N N D" and X: "shape K K X"
    and pos: "0 < N" and i: "i < N + K" and j: "j < 2 * (N + K)"
  shows "hopfield_blocks P C D X ! (i + (N + K)) ! swap_halves (N + K) j
           = - (hopfield_sign N (N + K) i * hopfield_sign N (N + K) j * hopfield_blocks P C D X ! i ! j)"
proof (cases "i < N")
  case True
  let ?a = "P ! i" and ?b = "mat_scale (- \<i>) C ! i" and ?c = "mat_scale (- 2) D ! i"
  have len: "length ?a = N" "length ?b = K" "length ?c = N"
    using True P C D by (simp_all add: shape_row shape_length mat_scale_nth)
  have top: "hopfield_blocks P C D X ! i = ?a @ ?b @ ?c @ ?b"
    using hopfield_blocks_row(1) [OF P C D X pos True] .
  have "mat_scale 2 D ! i = map uminus ?c" "mat_neg P ! i = map uminus ?a"
    using True P D by (simp_all add: mat_scale_nth mat_neg_nth shape_length)
  then have bot: "hopfield_blocks P C D X ! (i + (N + K)) = map uminus ?c @ ?b @ map uminus ?a @ ?b"
    using hopfield_blocks_row(2) [OF P C D X pos True] by simp
  have sg: "hopfield_sign N (N + K) i = 1"
    using True by (simp add: hopfield_sign_def)
  show ?thesis
    unfolding top bot sg using row_mirror_photon [OF len j] by simp
next
  case False
  define i' where "i' = i - N"
  have i': "i' < K" "i = N + i'"
    using False i by (simp_all add: i'_def)
  let ?Cd = "mat_conjugate (mat_T C)"
  have Cd: "shape K N ?Cd"
    using C pos by (intro shape_mat_conjugate shape_mat_T)
  let ?a = "mat_scale \<i> ?Cd ! i'" and ?b = "X ! i'" and ?c = "mat_scale (- \<i>) ?Cd ! i'"
  let ?d = "zeros K K ! i'"
  have len: "length ?a = N" "length ?b = K" "length ?c = N" "length ?d = K"
    using i'(1) Cd X by (simp_all add: shape_row shape_length mat_scale_nth zeros_def)
  have top: "hopfield_blocks P C D X ! i = ?a @ ?b @ ?c @ ?d"
    unfolding i'(2) using hopfield_blocks_row(3) [OF P C D X pos i'(1)] .
  have "zeros K K ! i' = map uminus ?d" "mat_neg X ! i' = map uminus ?b"
    using i'(1) X by (simp_all add: zeros_def mat_neg_nth shape_length)
  then have bot: "hopfield_blocks P C D X ! (i + (N + K)) = ?c @ map uminus ?d @ ?a @ map uminus ?b"
    unfolding i'(2) using hopfield_blocks_row(4) [OF P C D X pos i'(1)] by simp
  have sg: "hopfield_sign N (N + K) i = - 1"
    using False i by (simp add: hopfield_sign_def)
  show ?thesis
    unfolding top bot sg using row_mirror_exciton [OF len j] by simp
qed

lemma hopfield_blocks_mirrored:
  assumes P: "shape N N P" and C: "shape N K C" and D: "shape N N D" and X: "shape K K X"
    and pos: "0 < N"
  shows "mirrored (N + K) (hopfield_sign N (N + K)) (fm (hopfield_blocks P C D X))"
  unfolding mirrored_def
proof (intro conjI allI impI)
  fix i assume "i < 2 * (N + K)"
  show "hopfield_sign N (N + K) i * hopfield_sign N (N + K) i = 1"
    by (rule hopfield_sign_square)
next
  fix i j assume i: "i < 2 * (N + K)" and j: "j < 2 * (N + K)"
  let ?h = "N + K"
  let ?M = "hopfield_blocks P C D X"
  let ?sg = "hopfield_sign N ?h"
  show "fm ?M (swap_halves ?h i) (swap_halves ?h j) = - (?sg i * ?sg j * fm ?M i j)"
  proof (cases "i < ?h")
    case True
    then show ?thesis
      using hopfield_blocks_mirror_top [OF P C D X pos True j]
      by (simp add: fm_def swap_halves_def)
  next
    case False
    define i' where "i' = i - ?h"
    have i': "i' < ?h" "i = i' + ?h"
      using False i by (simp_all add: i'_def)
    have j': "swap_halves ?h j < 2 * ?h"
      using j by (rule swap_halves_less)
    have "?M ! i ! j = - (?sg i' * ?sg (swap_halves ?h j) * ?M ! i' ! swap_halves ?h j)"
      using hopfield_blocks_mirror_top [OF P C D X pos i'(1) j']
      by (simp add: i'(2) swap_halves_invol [OF j])
    moreover have "?sg i' = ?sg i"
      using hopfield_sign_swap [of N ?h i] i False by (simp add: i'_def swap_halves_def)
    moreover have "?sg (swap_halves ?h j) = ?sg j"
      using j by (intro hopfield_sign_swap) simp_all
    ultimately have "?M ! i ! j = - (?sg i * ?sg j * ?M ! i' ! swap_halves ?h j)"
      by simp
    then have "- (?sg i * ?sg j * ?M ! i ! j)
                 = (?sg i * ?sg i) * (?sg j * ?sg j) * ?M ! i' ! swap_halves ?h j"
      by (simp add: algebra_simps)
    then have "- (?sg i * ?sg j * ?M ! i ! j) = ?M ! i' ! swap_halves ?h j"
      by (simp only: hopfield_sign_square mult_1_left)
    moreover have "swap_halves ?h i = i'"
      using False by (simp add: swap_halves_def i'_def)
    ultimately show ?thesis
      by (simp add: fm_def)
  qed
qed

section \<open>The number of retained bands\<close>

lemma hopfield_nonneg_count:
  assumes P: "shape N N P" and C: "shape N K C" and D: "shape N N D" and X: "shape K K X"
    and pos: "0 < N"
    and e: "exact_eigenvalues (mat_add (hopfield_blocks P C D X)
               (eye (length (hopfield_blocks P C D X)))) w"
  shows "N + K \<le> length (filter (\<lambda>x. Re x \<ge> 0) (map (\<lambda>x. x - 1) w))"
proof -
  let ?M = "hopfield_blocks P C D X"
  let ?l = "map (\<lambda>x. x - 1) w"
  have sh: "shape (2 * (N + K)) (2 * (N + K)) ?M"
    using P C D X pos by (rule hopfield_blocks_shape)
  then have len: "length ?M = 2 * (N + K)"
    by (rule shape_length)
  have ex: "exact_eigenvalues ?M ?l"
    using sh e unfolding len [symmetric] by (rule exact_eigenvalues_shift)
  have "sum_list (map (\<lambda>x. x ^ k) ?l) = 0" if "odd k" for k
    unfolding exact_eigenvalues_power_sum(1) [OF ex] len
    using hopfield_blocks_mirrored [OF P C D X pos] that by (rule trc_pw_mirrored)
  then have "mset (map uminus ?l) = mset ?l"
    by (rule odd_power_sums_symmetric)
  then have "length ?l \<le> 2 * length (filter (\<lambda>x. Re x \<ge> 0) ?l)"
    by (rule symmetric_half_nonneg)
  moreover have "length ?l = 2 * (N + K)"
    using exact_eigenvalues_power_sum(2) [OF ex] len by simp
  ultimately show ?thesis
    by simp
qed

lemma mask_select_map: "mask_select (map P xs) xs = filter P xs"
  by (induction xs) (simp_all add: mask_select_def)

lemma length_mask_select_row:
  "length (mask_select (map P xs) r) = length (filter P (take (length r) xs))"
proof (induction xs arbitrary: r)
  case Nil
  then show ?case by (simp add: mask_select_def)
next
  case (Cons x xs)
  then show ?case
    by (cases r) (simp_all add: mask_select_def)
qed

lemma length_argsort: "length (argsort xs) = length xs"
  by (simp add: argsort_def)

lemma py_slice_to_pred:
  "0 < h \<Longrightarrow> py_slice_to (int h - 1) xs = take (h - 1) xs"
  by (simp add: py_slice_to_def nat_diff_distrib')

text \<open>The lengths of what the loop body returns for one k-point.\<close>

lemma diagonalise_lengths:
  assumes h: "0 < h" and numeig: "self_numeig self = 2 * h"
    and enough: "h \<le> length (filter (\<lambda>x. Re x \<ge> 0) (fst (eig_shifted eig mat)))"
  shows "case diagonalise eig self mat of (ener, ener_im, evec, fraction_ex, fraction_ph) \<Rightarrow>
           length ener = h - 1 \<and> length ener_im = h - 1 \<and> length fraction_ex = h - 1
           \<and> length fraction_ph = h - 1
           \<and> shape (length (snd (eig_shifted eig mat))) (h - 1) evec"
proof -
  obtain ener1 evecs where es: "eig_shifted eig mat = (ener1, evecs)"
    by (cases "eig_shifted eig mat")
  let ?f = "filter (\<lambda>x. Re x \<ge> 0) ener1"
  have "length (py_slice_to (int (self_numeig self) div 2 - 1) (argsort ?f)) = h - 1"
    using enough h by (simp add: numeig py_slice_to_pred length_argsort es)
  then show ?thesis
    by (simp add: diagonalise_def es Let_def mask_select_map case_prod_unfold shape_def
        list_all_length)
qed

text \<open>The assembler reads six attributes of the object, and no other.\<close>

lemma calculate_C_D_fields:
  assumes "self_gme s = self_gme s'" "self_a s = self_a s'"
    "self_N_max s = self_N_max s'" "self_M_max s = self_M_max s'"
  shows "calculate_C_D cs s exc kind = calculate_C_D cs s' exc kind"
  by (simp add: calculate_C_D_def C_entry_def pref_def assms)

lemma qw_loop_fields:
  assumes "self_gme s = self_gme s'" "self_a s = self_a s'"
    "self_N_max s = self_N_max s'" "self_M_max s = self_M_max s'"
  shows "qw_loop cs s kind ies st = qw_loop cs s' kind ies st"
proof (induction ies arbitrary: st)
  case Nil
  then show ?case by simp
next
  case (Cons ie ies)
  obtain ind_ex exc_sch where ie: "ie = (ind_ex, exc_sch)" by (cases ie)
  obtain C_blocks D_final_block D_var where st: "st = (C_blocks, D_final_block, D_var)"
    by (cases st)
  show ?case
    unfolding ie st
    by (simp add: calculate_C_D_fields [OF assms] Cons.IH split: prod.splits)
qed

lemma hopfield_matrix_fields:
  assumes "self_gme s = self_gme s'" "self_a s = self_a s'"
    "self_N_max s = self_N_max s'" "self_M_max s = self_M_max s'"
    "self_exc_list s = self_exc_list s'" "self_num_QWs s = self_num_QWs s'"
  shows "hopfield_matrix cs s kind = hopfield_matrix cs s' kind"
proof -
  have "diag_phot_bare cs s kind = diag_phot_bare cs s' kind"
    by (simp add: diag_phot_bare_def assms)
  moreover have "diag_exciton s kind = diag_exciton s' kind"
    by (simp add: diag_exciton_def assms)
  moreover have "qw_loop cs s kind ies st = qw_loop cs s' kind ies st" for ies st
    using assms(1-4) by (rule qw_loop_fields)
  ultimately show ?thesis
    by (simp add: hopfield_matrix_def assms)
qed


lemma results_ok_snoc:
  assumes "results_ok m n c es eis vs fes fps"
    and "length e = c" "length ei = c" "shape n c v" "length fe = c" "length fp = c"
  shows "results_ok (Suc m) n c (es @ [e]) (eis @ [ei]) (vs @ [v]) (fes @ [fe]) (fps @ [fp])"
  using assms by (simp add: results_ok_def)

lemma hopfield_step:
  assumes wf0: "self_exc_list s0 \<noteq> []" "self_num_QWs s0 = length (self_exc_list s0)"
      "0 < self_N_max s0" "0 < self_M_max s0" "self_a s0 = exc_a (hd (self_exc_list s0))"
    and inv: "self_gme s = self_gme s0" "self_exc_list s = self_exc_list s0"
      "self_num_QWs s = self_num_QWs s0" "self_N_max s = self_N_max s0"
      "self_M_max s = self_M_max s0"
    and ex: "exact_eigenvalues (mat_add (case hopfield_matrix cs s0 ik of Inl e \<Rightarrow> [] | Inr M \<Rightarrow> M)
              (eye (length (case hopfield_matrix cs s0 ik of Inl e \<Rightarrow> [] | Inr M \<Rightarrow> M))))
            (fst (eig (mat_add (case hopfield_matrix cs s0 ik of Inl e \<Rightarrow> [] | Inr M \<Rightarrow> M)
              (eye (length (case hopfield_matrix cs s0 ik of Inl e \<Rightarrow> [] | Inr M \<Rightarrow> M))))))"
  shows "\<exists>M. construct_Hopfield cs s ik = Inr (M, s\<lparr>self_a := self_a s0\<rparr>)
           \<and> hopfield_matrix cs s0 ik = Inr M
           \<and> length M = 2 * (self_N_max s0 + self_M_max s0 * self_num_QWs s0)
           \<and> self_N_max s0 + self_M_max s0 * self_num_QWs s0
                \<le> length (filter (\<lambda>x. Re x \<ge> 0) (fst (eig_shifted eig M)))"
proof -
  let ?N = "self_N_max s0" and ?K = "self_M_max s0 * self_num_QWs s0"
  let ?P = "diag_photon cs s0 ik" and ?C = "C_total cs s0 ik"
  let ?D = "D_block cs s0 (last (self_exc_list s0)) ik" and ?X = "diag_exciton s0 ik"
  let ?M = "hopfield_blocks ?P ?C ?D ?X"
  have M: "hopfield_matrix cs s0 ik = Inr ?M"
    using wf0(1-4) by (rule hopfield_matrix_eq)
  obtain exc0 rest where excs: "self_exc_list s0 = exc0 # rest"
    using wf0(1) by (cases "self_exc_list s0") auto
  have a: "self_a s0 = exc_a exc0"
    using wf0(5) by (simp add: excs)
  have "hopfield_matrix cs (s\<lparr>self_a := exc_a exc0\<rparr>) ik = hopfield_matrix cs s0 ik"
    by (rule hopfield_matrix_fields) (simp_all add: inv a)
  then have run: "construct_Hopfield cs s ik = Inr (?M, s\<lparr>self_a := self_a s0\<rparr>)"
    by (simp add: construct_Hopfield_def inv excs M bind_err_Inr a)
  have P: "shape ?N ?N ?P" by (rule shape_diag_photon)
  have C: "shape ?N ?K ?C"
    using shape_C_total [of s0 cs ik] wf0(1,2) by simp
  have D: "shape ?N ?N ?D" by (rule shape_D_block)
  have X: "shape ?K ?K ?X" by (rule shape_diag_exciton)
  have len: "length ?M = 2 * (?N + ?K)"
    using hopfield_blocks_shape [OF P C D X wf0(3)] by (rule shape_length)
  have ex': "exact_eigenvalues (mat_add ?M (eye (length ?M))) (fst (eig (mat_add ?M (eye (length ?M)))))"
    using ex by (simp add: M)
  have "?N + ?K \<le> length (filter (\<lambda>x. Re x \<ge> 0)
          (map (\<lambda>x. x - 1) (fst (eig (mat_add ?M (eye (length ?M)))))))"
    using P C D X wf0(3) ex' by (rule hopfield_nonneg_count)
  then have "?N + ?K \<le> length (filter (\<lambda>x. Re x \<ge> 0) (fst (eig_shifted eig ?M)))"
    by (simp add: eig_shifted_def case_prod_unfold Let_def)
  with run M len show ?thesis
    by blast
qed

lemma k_loop_results:
  assumes wf0: "self_exc_list s0 \<noteq> []" "self_num_QWs s0 = length (self_exc_list s0)"
      "0 < self_N_max s0" "0 < self_M_max s0" "self_a s0 = exc_a (hd (self_exc_list s0))"
    and inv: "self_gme s = self_gme s0" "self_exc_list s = self_exc_list s0"
      "self_num_QWs s = self_num_QWs s0" "self_N_max s = self_N_max s0"
      "self_M_max s = self_M_max s0"
    and ex: "\<forall>ik\<in>set iks. exact_eig eig
               (mat_add (case hopfield_matrix cs s0 ik of Inl e \<Rightarrow> [] | Inr M \<Rightarrow> M)
                 (eye (length (case hopfield_matrix cs s0 ik of Inl e \<Rightarrow> [] | Inr M \<Rightarrow> M))))"
    and acc: "results_ok m (2 * (self_N_max s0 + self_M_max s0 * self_num_QWs s0))
                (self_N_max s0 + self_M_max s0 * self_num_QWs s0 - 1)
                eners eners_im (self_eigvecs s) (self_fractions_ex s) (self_fractions_ph s)"
    and mv: "iks = [] \<longrightarrow> mat_var \<noteq> None \<and>
               self_numeig s = 2 * (self_N_max s0 + self_M_max s0 * self_num_QWs s0)"
  shows "\<exists>s' eners' eners_im' mat.
           k_loop cs eig iks (s, eners, eners_im, mat_var) = Inr (s', eners', eners_im', Some mat)
           \<and> self_num_QWs s' = self_num_QWs s0 \<and> self_N_max s' = self_N_max s0
           \<and> self_M_max s' = self_M_max s0
           \<and> self_numeig s' = 2 * (self_N_max s0 + self_M_max s0 * self_num_QWs s0)
           \<and> results_ok (m + length iks) (2 * (self_N_max s0 + self_M_max s0 * self_num_QWs s0))
                (self_N_max s0 + self_M_max s0 * self_num_QWs s0 - 1)
                eners' eners_im' (self_eigvecs s') (self_fractions_ex s') (self_fractions_ph s')"
  using inv ex acc mv
proof (induction iks arbitrary: s eners eners_im mat_var m)
  case Nil
  then show ?case by auto
next
  case (Cons ik iks)
  let ?h = "self_N_max s0 + self_M_max s0 * self_num_QWs s0"
  have h: "0 < ?h" using wf0(3) by simp
  have exk: "exact_eig eig
               (mat_add (case hopfield_matrix cs s0 ik of Inl e \<Rightarrow> [] | Inr M \<Rightarrow> M)
                 (eye (length (case hopfield_matrix cs s0 ik of Inl e \<Rightarrow> [] | Inr M \<Rightarrow> M))))"
    using Cons.prems(6) by simp
  from hopfield_step [OF wf0 Cons.prems(1-5), of cs ik eig] exk
  obtain M where run: "construct_Hopfield cs s ik = Inr (M, s\<lparr>self_a := self_a s0\<rparr>)"
    and M0: "hopfield_matrix cs s0 ik = Inr M"
    and len: "length M = 2 * ?h"
    and enough: "?h \<le> length (filter (\<lambda>x. Re x \<ge> 0) (fst (eig_shifted eig M)))"
    by (auto simp: exact_eig_def)
  let ?s1 = "s\<lparr>self_a := self_a s0, self_numeig := length M\<rparr>"
  obtain ener ener_im evec fraction_ex fraction_ph where
    d: "diagonalise eig ?s1 M = (ener, ener_im, evec, fraction_ex, fraction_ph)"
    by (cases "diagonalise eig ?s1 M") auto
  have "length (snd (eig (mat_add M (eye (length M))))) = length M"
    using exk by (simp add: exact_eig_def M0 shape_def mat_add_def eye_def)
  then have rows: "length (snd (eig_shifted eig M)) = 2 * ?h"
    by (simp add: eig_shifted_def case_prod_unfold Let_def len)
  have ne: "self_numeig ?s1 = 2 * ?h"
    by (simp add: len)
  note L = diagonalise_lengths [OF h ne enough, unfolded d prod.case rows]
  have lens: "length ener = ?h - 1" "length ener_im = ?h - 1" "length fraction_ex = ?h - 1"
    "length fraction_ph = ?h - 1" "shape (2 * ?h) (?h - 1) evec"
    using L by blast+
  let ?s2 = "?s1\<lparr>self_eigvecs := self_eigvecs ?s1 @ [evec],
                   self_fractions_ex := self_fractions_ex ?s1 @ [fraction_ex],
                   self_fractions_ph := self_fractions_ph ?s1 @ [fraction_ph]\<rparr>"
  have acc': "results_ok (Suc m) (2 * ?h) (?h - 1) (eners @ [ener]) (eners_im @ [ener_im])
                (self_eigvecs ?s2) (self_fractions_ex ?s2) (self_fractions_ph ?s2)"
    using results_ok_snoc [OF Cons.prems(7) lens(1,2,5,3,4)] by simp
  have step: "k_loop cs eig (ik # iks) (s, eners, eners_im, mat_var)
                = k_loop cs eig iks (?s2, eners @ [ener], eners_im @ [ener_im], Some M)"
    by (simp add: run bind_err_Inr d Let_def)
  have "\<exists>s' eners' eners_im' mat.
           k_loop cs eig iks (?s2, eners @ [ener], eners_im @ [ener_im], Some M)
             = Inr (s', eners', eners_im', Some mat)
           \<and> self_num_QWs s' = self_num_QWs s0 \<and> self_N_max s' = self_N_max s0
           \<and> self_M_max s' = self_M_max s0
           \<and> self_numeig s' = 2 * ?h
           \<and> results_ok (Suc m + length iks) (2 * ?h) (?h - 1)
                eners' eners_im' (self_eigvecs s') (self_fractions_ex s') (self_fractions_ph s')"
  proof (rule Cons.IH)
    show "self_gme ?s2 = self_gme s0" "self_exc_list ?s2 = self_exc_list s0"
      "self_num_QWs ?s2 = self_num_QWs s0" "self_N_max ?s2 = self_N_max s0"
      "self_M_max ?s2 = self_M_max s0"
      using Cons.prems(1-5) by simp_all
    show "\<forall>ik\<in>set iks. exact_eig eig
               (mat_add (case hopfield_matrix cs s0 ik of Inl e \<Rightarrow> [] | Inr M \<Rightarrow> M)
                 (eye (length (case hopfield_matrix cs s0 ik of Inl e \<Rightarrow> [] | Inr M \<Rightarrow> M))))"
      using Cons.prems(6) by simp
    show "results_ok (Suc m) (2 * ?h) (?h - 1) (eners @ [ener]) (eners_im @ [ener_im])
                (self_eigvecs ?s2) (self_fractions_ex ?s2) (self_fractions_ph ?s2)"
      by (rule acc')
    show "iks = [] \<longrightarrow> Some M \<noteq> None \<and> self_numeig ?s2 = 2 * ?h"
      by (simp add: len)
  qed
  then show ?case
    unfolding step by simp
qed


text \<open>
  C2. For a run over at least one k-point, with at least one quantum well and at least one
  photonic and one excitonic band, and a solver that is exact on the shifted matrix of
  every k-point: \<^verbatim>\<open>run\<close> returns, the assembled matrix has size
  \<open>2 (N_max + M_max num_QWs)\<close>, and for every k-point the energies, the linewidths, the
  eigenvector columns and the two fraction sequences number exactly \<open>size / 2 - 1\<close>.
\<close>

theorem run_retained_bands:
  assumes "self_exc_list self \<noteq> []"
    and "0 < gme_numeig (self_gme self)"
    and "0 < exc_numeig_ex (hd (self_exc_list self))"
    and "kpoints \<noteq> []"
    and "\<forall>ik<length kpoints.
           exact_eig eig (mat_add (assembled cs self ik) (eye (length (assembled cs self ik))))"
  shows "\<exists>res. run cs eig self kpoints = Inr res
           \<and> self_numeig res = 2 * (self_N_max res + self_M_max res * self_num_QWs res)
           \<and> results_ok (length kpoints) (self_numeig res) (self_numeig res div 2 - 1)
                (self_eners res) (self_eners_im res) (self_eigvecs res)
                (self_fractions_ex res) (self_fractions_ph res)"
proof -
  obtain exc0 rest where excs: "self_exc_list self = exc0 # rest"
    using assms(1) by (cases "self_exc_list self") auto
  define s0 where "s0 = run_prepared self"
  define s where "s = self\<lparr>self_kpoints := kpoints, self_eigvecs := [], self_fractions_ex := [],
      self_fractions_ph := [], self_num_QWs := length (self_exc_list self),
      self_N_max := gme_numeig (self_gme self), self_M_max := exc_numeig_ex exc0\<rparr>"
  let ?h = "self_N_max s0 + self_M_max s0 * self_num_QWs s0"
  have wf0: "self_exc_list s0 \<noteq> []" "self_num_QWs s0 = length (self_exc_list s0)"
    "0 < self_N_max s0" "0 < self_M_max s0" "self_a s0 = exc_a (hd (self_exc_list s0))"
    using assms(1-3) by (simp_all add: s0_def run_prepared_def)
  have inv: "self_gme s = self_gme s0" "self_exc_list s = self_exc_list s0"
    "self_num_QWs s = self_num_QWs s0" "self_N_max s = self_N_max s0"
    "self_M_max s = self_M_max s0"
    by (simp_all add: s_def s0_def run_prepared_def excs)
  have ex: "\<forall>ik\<in>set [0..<length kpoints]. exact_eig eig
               (mat_add (case hopfield_matrix cs s0 ik of Inl e \<Rightarrow> [] | Inr M \<Rightarrow> M)
                 (eye (length (case hopfield_matrix cs s0 ik of Inl e \<Rightarrow> [] | Inr M \<Rightarrow> M))))"
    using assms(5) by (simp add: assembled_def s0_def)
  have acc: "results_ok 0 (2 * ?h) (?h - 1) [] [] (self_eigvecs s) (self_fractions_ex s)
               (self_fractions_ph s)"
    by (simp add: results_ok_def s_def)
  have mv: "[0..<length kpoints] = [] \<longrightarrow> (None :: cmat option) \<noteq> None \<and> self_numeig s = 2 * ?h"
    using assms(4) by simp
  from k_loop_results [OF wf0 inv ex acc mv]
  obtain s' eners' eners_im' mat where
    loop: "k_loop cs eig [0..<length kpoints] (s, [], [], None) = Inr (s', eners', eners_im', Some mat)"
    and f: "self_num_QWs s' = self_num_QWs s0" "self_N_max s' = self_N_max s0"
      "self_M_max s' = self_M_max s0" "self_numeig s' = 2 * ?h"
    and ok: "results_ok (0 + length [0..<length kpoints]) (2 * ?h) (?h - 1)
                eners' eners_im' (self_eigvecs s') (self_fractions_ex s') (self_fractions_ph s')"
    by blast
  let ?res = "s'\<lparr>self_eners := eners', self_eners_im := eners_im', self_mat := mat\<rparr>"
  have loop': "k_loop cs eig [0..<length kpoints]
      (self\<lparr>self_kpoints := kpoints, self_eigvecs := [], self_fractions_ex := [],
         self_fractions_ph := [], self_num_QWs := Suc (length rest),
         self_N_max := gme_numeig (self_gme self), self_M_max := exc_numeig_ex exc0\<rparr>,
       [], [], None) = Inr (s', eners', eners_im', Some mat)"
    using loop by (simp add: s_def excs)
  have "run cs eig self kpoints = Inr ?res"
    unfolding run_def Let_def
    by (simp add: excs loop' bind_err_Inr)
  moreover have "self_numeig ?res = 2 * (self_N_max ?res + self_M_max ?res * self_num_QWs ?res)"
    by (simp add: f)
  moreover have "results_ok (length kpoints) (self_numeig ?res) (self_numeig ?res div 2 - 1)
                (self_eners ?res) (self_eners_im ?res) (self_eigvecs ?res)
                (self_fractions_ex ?res) (self_fractions_ph ?res)"
    using ok by (simp add: f)
  ultimately show ?thesis
    by blast
qed


section \<open>A run in the decoupled limit\<close>

text \<open>
  One photonic band of energy 7 and one quantum well with one exciton of energy 2 and
  oscillator strength zero: the matrix is diagonal.
\<close>

lemma ex_decoupled_blocks:
  "C_total ex_cs (ex_pol_run [ex_exc 0 2]) ik = [[0]]"
  "D_total ex_cs (ex_pol_run [ex_exc 0 2]) ik = [[0]]"
  "D_block ex_cs (ex_pol_run [ex_exc 0 2]) (ex_exc 0 2) ik = [[0]]"
  "diag_photon ex_cs (ex_pol_run [ex_exc 0 2]) ik = [[7]]"
  "diag_exciton (ex_pol_run [ex_exc 0 2]) ik = [[2]]"
proof -
  let ?self = "ex_pol_run [ex_exc 0 2]"
  note f = ex_pol_run_fields [of "[ex_exc 0 2]", unfolded ex_pol_run_a]
  show "C_total ex_cs ?self ik = [[0]]"
    unfolding C_total_eq f by (simp add: hcat_def ex_C_block [OF f(1-4)])
  show L: "D_block ex_cs ?self (ex_exc 0 2) ik = [[0]]"
    by (simp add: ex_D_block [OF f(1-4)])
  show D: "D_total ex_cs ?self ik = [[0]]"
    unfolding D_total_eq f by (simp add: L zeros_def mat_add_def)
  show "diag_photon ex_cs ?self ik = [[7]]"
    unfolding diag_photon_def D ex_diag_phot_bare
    by (simp add: mat_real_def mat_scale_def mat_add_def)
  show "diag_exciton ?self ik = [[2]]"
    unfolding diag_exciton_def f
    by (simp add: ex_exc_def zeros_def fill_diagonal_def)
qed

lemma ex_decoupled_matrix:
  "hopfield_matrix ex_cs (ex_pol_run [ex_exc 0 2]) ik =
     Inr [[7, 0, 0, 0], [0, 2, 0, 0], [0, 0, - 7, 0], [0, 0, 0, - 2]]"
proof -
  have "hopfield_matrix ex_cs (ex_pol_run [ex_exc 0 2]) ik =
          Inr (hopfield_blocks (diag_photon ex_cs (ex_pol_run [ex_exc 0 2]) ik)
                 (C_total ex_cs (ex_pol_run [ex_exc 0 2]) ik)
                 (D_block ex_cs (ex_pol_run [ex_exc 0 2])
                    (last (self_exc_list (ex_pol_run [ex_exc 0 2]))) ik)
                 (diag_exciton (ex_pol_run [ex_exc 0 2]) ik))"
    by (rule hopfield_matrix_eq) (simp_all add: ex_pol_run_def ex_pol_def)
  moreover have "last (self_exc_list (ex_pol_run [ex_exc 0 2])) = ex_exc 0 2"
    by (simp add: ex_pol_run_def ex_pol_def)
  ultimately have "hopfield_matrix ex_cs (ex_pol_run [ex_exc 0 2]) ik =
          Inr (hopfield_blocks [[7]] [[0]] [[0]] [[2]])"
    by (simp add: ex_decoupled_blocks)
  then show ?thesis
    by (simp add: hopfield_blocks_rows hcat_def mat_scale_def mat_neg_def mat_conjugate_def
        mat_T_def ncols_def zeros_def)
qed

lemma ex_run_prepared: "run_prepared (ex_pol [ex_exc osc en]) = ex_pol_run [ex_exc osc en]"
  by (simp add: run_prepared_def ex_pol_run_def ex_pol_def ex_gme_def ex_exc_def)

lemma ex_decoupled_assembled:
  "assembled ex_cs (ex_pol [ex_exc 0 2]) ik =
     [[7, 0, 0, 0], [0, 2, 0, 0], [0, 0, - 7, 0], [0, 0, 0, - 2]]"
  by (simp add: assembled_def ex_run_prepared ex_decoupled_matrix)

lemma ex_decoupled_exact:
  "exact_eig eig_of_diag (mat_add (assembled ex_cs (ex_pol [ex_exc 0 2]) ik)
     (eye (length (assembled ex_cs (ex_pol [ex_exc 0 2]) ik))))"
proof -
  let ?A = "[[8, 0, 0, 0], [0, 3, 0, 0], [0, 0, - 6, 0], [0, 0, 0, - 1 :: complex]]"
  have "mat_add (assembled ex_cs (ex_pol [ex_exc 0 2]) ik)
          (eye (length (assembled ex_cs (ex_pol [ex_exc 0 2]) ik))) = ?A"
    unfolding ex_decoupled_assembled by (simp add: mat_add_def eye_def)
  moreover have "exact_eig eig_of_diag ?A"
  proof (rule exact_eig_of_diag)
    show "shape (length ?A) (length ?A) ?A"
      by (simp add: shape_def)
    show "\<forall>i<length ?A. \<forall>j<length ?A. i \<noteq> j \<longrightarrow> ?A ! i ! j = 0"
      by (simp add: less_Suc_eq)
  qed
  ultimately show ?thesis
    by simp
qed

lemma ex_decoupled_eig:
  "eig_shifted eig_of_diag [[7, 0, 0, 0], [0, 2, 0, 0], [0, 0, - 7, 0], [0, 0, 0, - 2]]
     = ([7, 2, - 7, - 2], [[1, 0, 0, 0], [0, 1, 0, 0], [0, 0, 1, 0], [0, 0, 0, 1]])"
  by (simp add: eig_shifted_def eig_of_diag_def mat_add_def eye_def)

lemma ex_decoupled_steps:
  "map (\<lambda>x. Re x \<ge> 0) [7, 2, - 7, - 2 :: complex] = [True, True, False, False]"
  "mask_select [True, True, False, False] [a, b, c, d] = [a, b]"
  "calculate_fraction (Suc 0) (Suc 0) (Suc 0) [[1, 0], [0, 1], [0, 0], [0, 0]] = ([0, 1], [1, 0])"
  "argsort [7, 2] = [1, 0]"
  "py_slice_to 1 [Suc 0, 0] = [Suc 0]"
  by (simp_all add: mask_select_def calculate_fraction_eq ncols_def abs2_sum_def
      abs2_sum_from_def py_slice_def argsort_def py_slice_to_def upt_conv_Cons)

lemma ex_decoupled_diagonalise:
  assumes "self_N_max self = 1" "self_M_max self = 1" "self_num_QWs self = 1"
    "self_numeig self = 4"
  shows "diagonalise eig_of_diag self
           [[7, 0, 0, 0], [0, 2, 0, 0], [0, 0, - 7, 0], [0, 0, 0, - 2]]
         = ([2], [0], [[0], [1], [0], [0]], [1], [0])"
  unfolding diagonalise_def ex_decoupled_eig Let_def prod.case ex_decoupled_steps(1) assms
  by (simp add: ex_decoupled_steps)

lemma run_unfold:
  assumes "self_exc_list self = exc0 # rest"
  shows "run cs eig self kpoints =
           bind_err (k_loop cs eig [0..<length kpoints]
              (self\<lparr>self_kpoints := kpoints, self_eigvecs := [], self_fractions_ex := [],
                 self_fractions_ph := [], self_num_QWs := Suc (length rest),
                 self_N_max := gme_numeig (self_gme self),
                 self_M_max := exc_numeig_ex exc0\<rparr>, [], [], None))
             (\<lambda>(self, eners, eners_im, mat_var).
                (case mat_var of
                   None \<Rightarrow> Inl NameError
                 | Some mat \<Rightarrow>
                     Inr (self\<lparr>self_eners := eners, self_eners_im := eners_im, self_mat := mat\<rparr>)))"
  unfolding run_def Let_def by (simp add: assms)

lemma ex_decoupled_run:
  "run ex_cs eig_of_diag (ex_pol [ex_exc 0 2]) [(0, 0)] =
     Inr ((ex_pol_run [ex_exc 0 2])
            \<lparr>self_kpoints := [(0, 0)], self_numeig := 4,
             self_eigvecs := [[[0], [1], [0], [0]]],
             self_fractions_ex := [[1]], self_fractions_ph := [[0]],
             self_eners := [[2]], self_eners_im := [[0]],
             self_mat := [[7, 0, 0, 0], [0, 2, 0, 0], [0, 0, - 7, 0], [0, 0, 0, - 2]]\<rparr>)"
proof -
  let ?s = "(ex_pol_run [ex_exc 0 2])\<lparr>self_kpoints := [(0, 0)]\<rparr>"
  have "hopfield_matrix ex_cs (?s\<lparr>self_a := 1\<rparr>) 0 = hopfield_matrix ex_cs (ex_pol_run [ex_exc 0 2]) 0"
    by (rule hopfield_matrix_fields) (simp_all add: ex_pol_run_def ex_pol_def)
  then have m: "hopfield_matrix ex_cs (?s\<lparr>self_a := 1\<rparr>) 0 =
             Inr [[7, 0, 0, 0], [0, 2, 0, 0], [0, 0, - 7, 0], [0, 0, 0, - 2]]"
    by (simp only: ex_decoupled_matrix)
  have el: "self_exc_list ?s = [ex_exc 0 2]" "exc_a (ex_exc 0 2) = 1"
    by (simp_all add: ex_pol_run_def ex_pol_def ex_exc_def)
  have c: "construct_Hopfield ex_cs ?s 0 =
             Inr ([[7, 0, 0, 0], [0, 2, 0, 0], [0, 0, - 7, 0], [0, 0, 0, - 2]], ?s\<lparr>self_a := 1\<rparr>)"
    unfolding construct_Hopfield_def el list.case Let_def m
    by (simp add: bind_err_def)
  have d: "diagonalise eig_of_diag (?s\<lparr>self_a := 1, self_numeig := Suc (Suc (Suc (Suc 0)))\<rparr>)
             [[7, 0, 0, 0], [0, 2, 0, 0], [0, 0, - 7, 0], [0, 0, 0, - 2]]
           = ([2], [0], [[0], [1], [0], [0]], [1], [0])"
    by (rule ex_decoupled_diagonalise) (simp_all add: ex_pol_run_def)
  have start: "(ex_pol [ex_exc 0 2])\<lparr>self_kpoints := [(0, 0)], self_eigvecs := [],
      self_fractions_ex := [], self_fractions_ph := [], self_num_QWs := Suc 0,
      self_N_max := gme_numeig (self_gme (ex_pol [ex_exc 0 2])),
      self_M_max := exc_numeig_ex (ex_exc 0 2)\<rparr> = ?s"
    by (simp add: ex_pol_run_def ex_pol_def ex_gme_def ex_exc_def)
  have loop: "k_loop ex_cs eig_of_diag [0] (?s, [], [], None)
      = Inr (?s\<lparr>self_a := 1, self_numeig := 4,
                self_eigvecs := self_eigvecs ?s @ [[[0], [1], [0], [0]]],
                self_fractions_ex := self_fractions_ex ?s @ [[1]],
                self_fractions_ph := self_fractions_ph ?s @ [[0]]\<rparr>, [[2]], [[0]],
             Some [[7, 0, 0, 0], [0, 2, 0, 0], [0, 0, - 7, 0], [0, 0, 0, - 2]])"
    by (simp add: c bind_err_def d Let_def)
  have excs: "self_exc_list (ex_pol [ex_exc 0 2]) = [ex_exc 0 2]"
    by (simp add: ex_pol_def)
  have "run ex_cs eig_of_diag (ex_pol [ex_exc 0 2]) [(0, 0)]
      = Inr (?s\<lparr>self_a := 1, self_numeig := 4,
                self_eigvecs := self_eigvecs ?s @ [[[0], [1], [0], [0]]],
                self_fractions_ex := self_fractions_ex ?s @ [[1]],
                self_fractions_ph := self_fractions_ph ?s @ [[0]],
                self_eners := [[2]], self_eners_im := [[0]],
                self_mat := [[7, 0, 0, 0], [0, 2, 0, 0], [0, 0, - 7, 0], [0, 0, 0, - 2]]\<rparr>)"
    unfolding run_unfold [OF excs] list.size start
    by (simp add: loop bind_err_def del: k_loop.simps)
  then show ?thesis
    by (simp add: ex_pol_run_def ex_pol_def)
qed


theorem run_retained_bands_witness:
  "self_exc_list (ex_pol [ex_exc 0 2]) \<noteq> []
   \<and> 0 < gme_numeig (self_gme (ex_pol [ex_exc 0 2]))
   \<and> 0 < exc_numeig_ex (hd (self_exc_list (ex_pol [ex_exc 0 2])))
   \<and> [(0, 0)] \<noteq> ([] :: (real \<times> real) list)
   \<and> exact_eig eig_of_diag (mat_add (assembled ex_cs (ex_pol [ex_exc 0 2]) 0)
         (eye (length (assembled ex_cs (ex_pol [ex_exc 0 2]) 0))))
   \<and> (\<exists>res. run ex_cs eig_of_diag (ex_pol [ex_exc 0 2]) [(0, 0)] = Inr res
          \<and> self_numeig res = 2 * (self_N_max res + self_M_max res * self_num_QWs res)
          \<and> results_ok (length [(0 :: real, 0 :: real)]) (self_numeig res) (self_numeig res div 2 - 1)
               (self_eners res) (self_eners_im res) (self_eigvecs res)
               (self_fractions_ex res) (self_fractions_ph res))
   \<and> map_sum id self_numeig (run ex_cs eig_of_diag (ex_pol [ex_exc 0 2]) [(0, 0)]) = Inr 4
   \<and> map_sum id self_eners (run ex_cs eig_of_diag (ex_pol [ex_exc 0 2]) [(0, 0)]) = Inr [[2]]"
proof -
  have h: "self_exc_list (ex_pol [ex_exc 0 2]) \<noteq> []"
    "0 < gme_numeig (self_gme (ex_pol [ex_exc 0 2]))"
    "0 < exc_numeig_ex (hd (self_exc_list (ex_pol [ex_exc 0 2])))"
    "[(0, 0)] \<noteq> ([] :: (real \<times> real) list)"
    by (simp_all add: ex_pol_def ex_gme_def ex_exc_def)
  have e: "\<forall>ik<length [(0 :: real, 0 :: real)].
      exact_eig eig_of_diag (mat_add (assembled ex_cs (ex_pol [ex_exc 0 2]) ik)
         (eye (length (assembled ex_cs (ex_pol [ex_exc 0 2]) ik))))"
    using ex_decoupled_exact by blast
  note r = run_retained_bands [OF h e]
  have v: "map_sum id self_numeig (run ex_cs eig_of_diag (ex_pol [ex_exc 0 2]) [(0, 0)]) = Inr 4"
    "map_sum id self_eners (run ex_cs eig_of_diag (ex_pol [ex_exc 0 2]) [(0, 0)]) = Inr [[2]]"
    by (simp_all add: ex_decoupled_run)
  show ?thesis
    using h ex_decoupled_exact [of 0] r v by blast
qed


section \<open>The decoupled limit\<close>

lemma sum_list_zeros: "(\<And>x. x \<in> set xs \<Longrightarrow> x = (0 :: complex)) \<Longrightarrow> sum_list xs = 0"
  by (induction xs) auto

lemma C_entry_zero:
  assumes "\<forall>x\<in>set (exc_osc_str exc). Re x = 0"
  shows "C_entry cs self exc E W = 0"
proof -
  have v: "x = 0" if "x \<in> set (sqrt_osc_str exc)" for x
    using that assms by (auto simp: sqrt_osc_str_def)
  have d: "y = 0" if "y \<in> set (np_dot (sqrt_osc_str exc) E)" for y
  proof -
    from that obtain g where "y = sum_list (map2 (\<lambda>x r. x * r ! g) (sqrt_osc_str exc) E)"
      by (auto simp: np_dot_def)
    moreover have "sum_list (map2 (\<lambda>x r. x * r ! g) (sqrt_osc_str exc) E) = 0"
      by (rule sum_list_zeros) (auto dest!: set_zip_leftD v)
    ultimately show ?thesis by simp
  qed
  have "sum_list (map2 (*) (np_dot (sqrt_osc_str exc) E) (map cnj W)) = 0"
    by (rule sum_list_zeros) (auto dest!: set_zip_leftD d)
  then show ?thesis
    by (simp add: C_entry_def)
qed

lemma C_block_zero:
  assumes "\<forall>x\<in>set (exc_osc_str exc). Re x = 0"
  shows "C_block cs self exc kind = zeros (self_N_max self) (self_M_max self)"
  by (simp add: C_block_def C_entry_zero [OF assms] zeros_def map_replicate_const)

lemma D_entry_zero: "D_entry (replicate m 0) (replicate m 0) en = 0"
  unfolding D_entry_def by (rule sum_list_zeros) (auto dest!: set_zip_leftD)

lemma D_block_zero:
  assumes "\<forall>x\<in>set (exc_osc_str exc). Re x = 0"
  shows "D_block cs self exc kind = zeros (self_N_max self) (self_N_max self)"
proof -
  have "D_entry (C_block cs self exc kind ! n_1) (C_block cs self exc kind ! n_2) en = 0"
    if "n_1 < self_N_max self" "n_2 < self_N_max self" for n_1 n_2 en
    using that by (simp add: C_block_zero [OF assms] zeros_def D_entry_zero)
  then show ?thesis
    by (auto simp: D_block_def zeros_def intro!: nth_equalityI)
qed

lemma mat_add_zeros_right: "shape r c A \<Longrightarrow> mat_add A (zeros r c) = A"
  by (auto simp: shape_def mat_add_def zeros_def list_all_length intro!: nth_equalityI)

lemma D_total_zero:
  assumes "\<forall>exc\<in>set (self_exc_list self). \<forall>x\<in>set (exc_osc_str exc). Re x = 0"
  shows "D_total cs self kind = zeros (self_N_max self) (self_N_max self)"
proof -
  have "fold (\<lambda>e acc. mat_add acc (D_block cs self e kind)) es
          (zeros (self_N_max self) (self_N_max self)) = zeros (self_N_max self) (self_N_max self)"
    if "set es \<subseteq> set (self_exc_list self)" for es
  proof (use that in \<open>induction es\<close>)
    case Nil
    show ?case by simp
  next
    case (Cons a es)
    have "D_block cs self a kind = zeros (self_N_max self) (self_N_max self)"
      using Cons.prems assms by (intro D_block_zero) auto
    then show ?case
      using Cons by (simp add: mat_add_zeros_right shape_zeros)
  qed
  then show ?thesis
    unfolding D_total_eq by simp
qed

lemma concat_replicate_zeros: "concat (replicate q (replicate m (0 :: complex))) = replicate (m * q) 0"
  by (induction q) (simp_all add: replicate_add)

lemma C_total_zero:
  assumes "\<forall>exc\<in>set (self_exc_list self). \<forall>x\<in>set (exc_osc_str exc). Re x = 0"
    and "self_exc_list self \<noteq> []"
  shows "C_total cs self kind
           = zeros (self_N_max self) (self_M_max self * length (self_exc_list self))"
proof -
  let ?Z = "zeros (self_N_max self) (self_M_max self)"
  have m: "map (\<lambda>e. C_block cs self e kind) (self_exc_list self)
             = replicate (length (self_exc_list self)) ?Z"
  proof -
    have "map (\<lambda>e. C_block cs self e kind) es = replicate (length es) ?Z"
      if "set es \<subseteq> set (self_exc_list self)" for es
    proof (use that in \<open>induction es\<close>)
      case Nil
      show ?case by simp
    next
      case (Cons a es)
      have "C_block cs self a kind = ?Z"
        using Cons.prems assms(1) by (intro C_block_zero) auto
      then show ?case
        using Cons by simp
    qed
    then show ?thesis by simp
  qed
  have hd: "hd (replicate (length (self_exc_list self)) ?Z) = ?Z"
    using assms(2) by (cases "self_exc_list self") simp_all
  show ?thesis
    unfolding C_total_eq m hcat_def hd
    by (auto simp: zeros_def map_replicate_const concat_replicate_zeros intro!: nth_equalityI)
qed

lemma diag_photon_zero:
  assumes "\<forall>exc\<in>set (self_exc_list self). \<forall>x\<in>set (exc_osc_str exc). Re x = 0"
  shows "diag_photon cs self kind = diag_phot_bare cs self kind"
proof -
  have "mat_scale 2 (mat_real (zeros (self_N_max self) (self_N_max self)))
          = zeros (self_N_max self) (self_N_max self)"
    by (simp add: mat_scale_def mat_real_def zeros_def)
  then show ?thesis
    unfolding diag_photon_def D_total_zero [OF assms]
    by (simp add: mat_add_zeros_right shape_diag_phot_bare)
qed


lemma fill_diagonal_offdiag:
  "i < n \<Longrightarrow> j < n \<Longrightarrow> i \<noteq> j \<Longrightarrow> fill_diagonal (zeros n n) vals ! i ! j = 0"
  by (simp add: fill_diagonal_def zeros_def)

lemma diag_phot_bare_offdiag:
  "i < self_N_max self \<Longrightarrow> j < self_N_max self \<Longrightarrow> i \<noteq> j
   \<Longrightarrow> diag_phot_bare cs self kind ! i ! j = 0"
  by (simp add: diag_phot_bare_def Let_def fill_diagonal_offdiag) (simp add: zeros_def)

lemma diag_exciton_offdiag:
  "i < self_M_max self * self_num_QWs self \<Longrightarrow> j < self_M_max self * self_num_QWs self
   \<Longrightarrow> i \<noteq> j \<Longrightarrow> diag_exciton self kind ! i ! j = 0"
  by (simp add: diag_exciton_def fill_diagonal_offdiag)

lemma mat_T_zeros:
  assumes "0 < r"
  shows "mat_conjugate (mat_T (zeros r c)) = zeros c r"
proof -
  have "ncols (zeros r c) = c"
    using shape_zeros assms by (rule shape_ncols)
  then show ?thesis
    by (auto simp: mat_conjugate_def mat_T_def zeros_def intro!: nth_equalityI)
qed

lemma mat_scale_zeros: "mat_scale k (zeros r c) = zeros r c"
  by (simp add: mat_scale_def zeros_def)

lemma hopfield_blocks_decoupled_row:
  assumes P: "shape N N P" and X: "shape K K X" and pos: "0 < N"
  shows "i < N \<Longrightarrow> hopfield_blocks P (zeros N K) (zeros N N) X ! i
           = P ! i @ replicate K 0 @ replicate N 0 @ replicate K 0"
    and "i < N \<Longrightarrow> hopfield_blocks P (zeros N K) (zeros N N) X ! (i + (N + K))
           = replicate N 0 @ replicate K 0 @ map uminus (P ! i) @ replicate K 0"
    and "i < K \<Longrightarrow> hopfield_blocks P (zeros N K) (zeros N N) X ! (N + i)
           = replicate N 0 @ X ! i @ replicate N 0 @ replicate K 0"
    and "i < K \<Longrightarrow> hopfield_blocks P (zeros N K) (zeros N N) X ! (N + i + (N + K))
           = replicate N 0 @ replicate K 0 @ replicate N 0 @ map uminus (X ! i)"
proof -
  note r = hopfield_blocks_row [OF P shape_zeros shape_zeros X pos]
  have lP: "length P = N" and lX: "length X = K"
    using P X by (simp_all add: shape_def)
  show "i < N \<Longrightarrow> hopfield_blocks P (zeros N K) (zeros N N) X ! i
           = P ! i @ replicate K 0 @ replicate N 0 @ replicate K 0"
    by (simp add: r(1) mat_scale_zeros) (simp add: zeros_def)
  show "i < N \<Longrightarrow> hopfield_blocks P (zeros N K) (zeros N N) X ! (i + (N + K))
           = replicate N 0 @ replicate K 0 @ map uminus (P ! i) @ replicate K 0"
    by (simp add: r(2) mat_scale_zeros mat_neg_nth lP) (simp add: zeros_def)
  show "i < K \<Longrightarrow> hopfield_blocks P (zeros N K) (zeros N N) X ! (N + i)
           = replicate N 0 @ X ! i @ replicate N 0 @ replicate K 0"
    by (simp add: r(3) mat_scale_zeros mat_T_zeros [OF pos]) (simp add: zeros_def)
  show "i < K \<Longrightarrow> hopfield_blocks P (zeros N K) (zeros N N) X ! (N + i + (N + K))
           = replicate N 0 @ replicate K 0 @ replicate N 0 @ map uminus (X ! i)"
    by (simp add: r(4) mat_scale_zeros mat_T_zeros [OF pos] mat_neg_nth lX) (simp add: zeros_def)
qed

lemma hopfield_blocks_decoupled_entry:
  assumes P: "shape N N P" and X: "shape K K X" and pos: "0 < N"
    and oP: "\<And>i j. i < N \<Longrightarrow> j < N \<Longrightarrow> i \<noteq> j \<Longrightarrow> P ! i ! j = 0"
    and oX: "\<And>i j. i < K \<Longrightarrow> j < K \<Longrightarrow> i \<noteq> j \<Longrightarrow> X ! i ! j = 0"
    and i: "i < 2 * (N + K)" and j: "j < 2 * (N + K)"
  shows "hopfield_blocks P (zeros N K) (zeros N N) X ! i ! j
           = (if i = j
              then (diagonal_of P @ diagonal_of X @ map uminus (diagonal_of P)
                      @ map uminus (diagonal_of X)) ! i
              else 0)"
proof -
  note r = hopfield_blocks_decoupled_row [OF P X pos]
  have lP: "length P = N" and lX: "length X = K"
    using P X by (simp_all add: shape_def)
  have rP: "length (P ! a) = N" if "a < N" for a
    using P that by (rule shape_row)
  have rX: "length (X ! a) = K" if "a < K" for a
    using X that by (rule shape_row)
  consider (a) "i < N" | (b) a where "i = N + a" "a < K" | (c) a where "i = a + (N + K)" "a < N"
    | (d) a where "i = N + a + (N + K)" "a < K"
  proof -
    have "i < N \<or> (N \<le> i \<and> i < N + K) \<or> (N + K \<le> i \<and> i < N + K + N) \<or> (N + K + N \<le> i)"
      by linarith
    then show ?thesis
    proof (elim disjE conjE)
      assume "i < N" then show ?thesis by (rule a)
    next
      assume "N \<le> i" "i < N + K"
      then have "i = N + (i - N)" "i - N < K" by simp_all
      then show ?thesis by (rule b)
    next
      assume "N + K \<le> i" "i < N + K + N"
      then have "i = (i - (N + K)) + (N + K)" "i - (N + K) < N" by simp_all
      then show ?thesis by (rule c)
    next
      assume "N + K + N \<le> i"
      then have "i = N + (i - (N + K + N)) + (N + K)" "i - (N + K + N) < K"
        using i by simp_all
      then show ?thesis by (rule d)
    qed
  qed
  then show ?thesis
  proof cases
    case a
    then show ?thesis
      using j oP [of i j] by (auto simp: r(1) nth_append rP lP lX diagonal_of_def)
  next
    case b
    then show ?thesis
      using j oX [of a "j - N"] by (auto simp: r(3) nth_append rX lP lX diagonal_of_def)
  next
    case c
    then show ?thesis
      using j oP [of a "j - (N + K)"]
      by (auto simp: r(2) nth_append rP lP lX diagonal_of_def)
  next
    case d
    then show ?thesis
      using j oX [of a "j - (N + K + N)"]
      by (auto simp: r(4) nth_append rX lP lX diagonal_of_def)
  qed
qed


lemma map_sort_key: "map f (sort_key f xs) = sort (map f xs)"
  by (rule properties_for_sort [symmetric]) (simp_all add: sorted_sort_key)

lemma sort_mset_cong: "mset xs = mset ys \<Longrightarrow> sort xs = sort ys"
  by (rule properties_for_sort) simp_all

lemma argsort_values:
  "map (\<lambda>i. (Re (f ! i), Im (f ! i))) (argsort f) = sort (map (\<lambda>x. (Re x, Im x)) f)"
proof -
  have "map (\<lambda>i. (Re (f ! i), Im (f ! i))) (argsort f)
          = sort (map (\<lambda>i. (Re (f ! i), Im (f ! i))) [0..<length f])"
    unfolding argsort_def by (rule map_sort_key)
  also have "map (\<lambda>i. (Re (f ! i), Im (f ! i))) [0..<length f] = map (\<lambda>x. (Re x, Im x)) f"
    by (rule nth_equalityI) simp_all
  finally show ?thesis .
qed

lemma lowest_energies_argsort:
  assumes "mset ener1 = mset w"
  shows "map (\<lambda>i. Re (filter (\<lambda>x. Re x \<ge> 0) ener1 ! i))
           (take k (argsort (filter (\<lambda>x. Re x \<ge> 0) ener1)))
         = lowest_energies k w"
proof -
  let ?f = "filter (\<lambda>x. Re x \<ge> 0) ener1"
  have "mset (map (\<lambda>x. (Re x, Im x)) ?f)
          = mset (map (\<lambda>x. (Re x, Im x)) (filter (\<lambda>x. Re x \<ge> 0) w))"
    using assms by simp
  then have s: "sort (map (\<lambda>x. (Re x, Im x)) ?f)
          = sort (map (\<lambda>x. (Re x, Im x)) (filter (\<lambda>x. Re x \<ge> 0) w))"
    by (rule sort_mset_cong)
  have "map (\<lambda>i. Re (?f ! i)) (take k (argsort ?f))
          = map fst (take k (map (\<lambda>i. (Re (?f ! i), Im (?f ! i))) (argsort ?f)))"
    by (simp only: take_map map_map o_def fst_conv)
  then show ?thesis
    by (simp only: argsort_values s lowest_energies_def)
qed

lemma diagonalise_energies:
  assumes h: "0 < h" and numeig: "self_numeig self = 2 * h"
    and w: "mset (fst (eig_shifted eig mat)) = mset w"
  shows "fst (diagonalise eig self mat) = lowest_energies (h - 1) w"
proof -
  obtain ener1 evecs where es: "eig_shifted eig mat = (ener1, evecs)"
    by (cases "eig_shifted eig mat")
  let ?f = "filter (\<lambda>x. Re x \<ge> 0) ener1"
  have sl: "py_slice_to (int (self_numeig self) div 2 - 1) (argsort ?f) = take (h - 1) (argsort ?f)"
    using h by (simp add: numeig py_slice_to_pred)
  have "mset ener1 = mset w"
    using w by (simp add: es)
  then have l: "map (\<lambda>i. Re (?f ! i)) (take (h - 1) (argsort ?f)) = lowest_energies (h - 1) w"
    by (rule lowest_energies_argsort)
  have "fst (diagonalise eig self mat) = map (\<lambda>i. Re (?f ! i)) (take (h - 1) (argsort ?f))"
    by (simp add: diagonalise_def es Let_def mask_select_map case_prod_unfold sl)
  then show ?thesis
    by (simp only: l)
qed

lemma diagonalise_fields:
  assumes "self_N_max s = self_N_max s'" "self_M_max s = self_M_max s'"
    "self_num_QWs s = self_num_QWs s'" "self_numeig s = self_numeig s'"
  shows "diagonalise eig s mat = diagonalise eig s' mat"
  by (simp add: diagonalise_def assms)


lemma decoupled_matrix:
  assumes ne: "self_exc_list self \<noteq> []"
    and Q: "self_num_QWs self = length (self_exc_list self)"
    and pos: "0 < self_N_max self" "0 < self_M_max self"
    and zero: "\<forall>exc\<in>set (self_exc_list self). \<forall>x\<in>set (exc_osc_str exc). Re x = 0"
  shows "hopfield_matrix cs self kind =
           Inr (hopfield_blocks (diag_phot_bare cs self kind)
                  (zeros (self_N_max self) (self_M_max self * self_num_QWs self))
                  (zeros (self_N_max self) (self_N_max self)) (diag_exciton self kind))"
proof -
  have "last (self_exc_list self) \<in> set (self_exc_list self)"
    using ne by simp
  then have "D_block cs self (last (self_exc_list self)) kind
               = zeros (self_N_max self) (self_N_max self)"
    using zero by (intro D_block_zero) auto
  then show ?thesis
    by (simp add: hopfield_matrix_eq [OF ne Q pos] diag_photon_zero [OF zero]
        C_total_zero [OF zero ne] Q)
qed

lemma length_diagonal_of: "length (diagonal_of A) = length A"
  by (simp add: diagonal_of_def)

lemma decoupled_spectrum:
  assumes P: "shape N N P" and X: "shape K K X" and pos: "0 < N"
    and oP: "\<And>i j. i < N \<Longrightarrow> j < N \<Longrightarrow> i \<noteq> j \<Longrightarrow> P ! i ! j = 0"
    and oX: "\<And>i j. i < K \<Longrightarrow> j < K \<Longrightarrow> i \<noteq> j \<Longrightarrow> X ! i ! j = 0"
    and ex: "exact_eig eig (mat_add (hopfield_blocks P (zeros N K) (zeros N N) X)
               (eye (length (hopfield_blocks P (zeros N K) (zeros N N) X))))"
  shows "mset (fst (eig_shifted eig (hopfield_blocks P (zeros N K) (zeros N N) X)))
           = mset ((diagonal_of P @ diagonal_of X)
                   @ map uminus (diagonal_of P @ diagonal_of X))"
proof -
  let ?M = "hopfield_blocks P (zeros N K) (zeros N N) X"
  let ?d = "diagonal_of P @ diagonal_of X @ map uminus (diagonal_of P) @ map uminus (diagonal_of X)"
  note entry = hopfield_blocks_decoupled_entry [OF P X pos oP oX]
  have sh: "shape (2 * (N + K)) (2 * (N + K)) ?M"
    using P shape_zeros shape_zeros X pos by (rule hopfield_blocks_shape)
  then have len: "length ?M = 2 * (N + K)"
    by (rule shape_length)
  have lP: "length P = N" and lX: "length X = K"
    using P X by (simp_all add: shape_def)
  have "exact_eigenvalues ?M (map (\<lambda>i. ?M ! i ! i) [0..<length ?M])"
  proof (rule exact_eigenvalues_triangular, intro allI impI)
    fix i j assume "i < length ?M" "j < i"
    then show "?M ! i ! j = 0"
      using entry [of i j] by (simp add: len)
  qed
  moreover have "map (\<lambda>i. ?M ! i ! i) [0..<length ?M] = ?d"
  proof (rule nth_equalityI)
    show "length (map (\<lambda>i. ?M ! i ! i) [0..<length ?M]) = length ?d"
      by (simp add: len length_diagonal_of lP lX)
    fix i assume "i < length (map (\<lambda>i. ?M ! i ! i) [0..<length ?M])"
    then have "i < 2 * (N + K)"
      by (simp add: len)
    then show "map (\<lambda>i. ?M ! i ! i) [0..<length ?M] ! i = ?d ! i"
      using entry [of i i] by (simp add: len)
  qed
  ultimately have d: "exact_eigenvalues ?M ?d"
    by simp
  have "shape (length ?M) (length ?M) ?M"
    using sh by (simp add: len)
  moreover have "exact_eigenvalues (mat_add ?M (eye (length ?M)))
                   (fst (eig (mat_add ?M (eye (length ?M)))))"
    using ex by (simp add: exact_eig_def)
  ultimately have "exact_eigenvalues ?M
      (map (\<lambda>x. x - 1) (fst (eig (mat_add ?M (eye (length ?M))))))"
    by (rule exact_eigenvalues_shift)
  then have "mset (map (\<lambda>x. x - 1) (fst (eig (mat_add ?M (eye (length ?M)))))) = mset ?d"
    using d by (rule exact_eigenvalues_unique)
  then show ?thesis
    by (simp add: eig_shifted_def case_prod_unfold Let_def)
qed


lemma k_loop_eners:
  assumes wf0: "self_exc_list s0 \<noteq> []" "self_num_QWs s0 = length (self_exc_list s0)"
      "0 < self_N_max s0" "0 < self_M_max s0" "self_a s0 = exc_a (hd (self_exc_list s0))"
    and inv: "self_gme s = self_gme s0" "self_exc_list s = self_exc_list s0"
      "self_num_QWs s = self_num_QWs s0" "self_N_max s = self_N_max s0"
      "self_M_max s = self_M_max s0"
    and ex: "\<forall>ik\<in>set iks. exact_eig eig
               (mat_add (case hopfield_matrix cs s0 ik of Inl e \<Rightarrow> [] | Inr M \<Rightarrow> M)
                 (eye (length (case hopfield_matrix cs s0 ik of Inl e \<Rightarrow> [] | Inr M \<Rightarrow> M))))"
  shows "\<exists>s' eners_im' mat'.
           k_loop cs eig iks (s, eners, eners_im, mat_var)
             = Inr (s', eners @ map (\<lambda>ik. fst (diagonalise eig
                      (s0\<lparr>self_numeig := 2 * (self_N_max s0 + self_M_max s0 * self_num_QWs s0)\<rparr>)
                      (case hopfield_matrix cs s0 ik of Inl e \<Rightarrow> [] | Inr M \<Rightarrow> M))) iks,
                    eners_im', mat')"
  using inv ex
proof (induction iks arbitrary: s eners eners_im mat_var)
  case Nil
  then show ?case by simp
next
  case (Cons ik iks)
  let ?h = "self_N_max s0 + self_M_max s0 * self_num_QWs s0"
  have exk: "exact_eig eig
               (mat_add (case hopfield_matrix cs s0 ik of Inl e \<Rightarrow> [] | Inr M \<Rightarrow> M)
                 (eye (length (case hopfield_matrix cs s0 ik of Inl e \<Rightarrow> [] | Inr M \<Rightarrow> M))))"
    using Cons.prems(6) by simp
  from hopfield_step [OF wf0 Cons.prems(1-5), of cs ik eig] exk
  obtain M where run: "construct_Hopfield cs s ik = Inr (M, s\<lparr>self_a := self_a s0\<rparr>)"
    and M0: "hopfield_matrix cs s0 ik = Inr M"
    and len: "length M = 2 * ?h"
    by (auto simp: exact_eig_def)
  let ?s1 = "s\<lparr>self_a := self_a s0, self_numeig := length M\<rparr>"
  obtain ener ener_im evec fraction_ex fraction_ph where
    d: "diagonalise eig ?s1 M = (ener, ener_im, evec, fraction_ex, fraction_ph)"
    by (cases "diagonalise eig ?s1 M") auto
  have eqn: "diagonalise eig (s0\<lparr>self_numeig := 2 * ?h\<rparr>) M = diagonalise eig ?s1 M"
    by (rule diagonalise_fields) (simp_all add: Cons.prems(1-5) len)
  have ener: "ener = fst (diagonalise eig (s0\<lparr>self_numeig := 2 * ?h\<rparr>)
                      (case hopfield_matrix cs s0 ik of Inl e \<Rightarrow> [] | Inr M \<Rightarrow> M))"
    by (simp only: M0 sum.case eqn d fst_conv)
  let ?s2 = "?s1\<lparr>self_eigvecs := self_eigvecs ?s1 @ [evec],
                   self_fractions_ex := self_fractions_ex ?s1 @ [fraction_ex],
                   self_fractions_ph := self_fractions_ph ?s1 @ [fraction_ph]\<rparr>"
  have step: "k_loop cs eig (ik # iks) (s, eners, eners_im, mat_var)
                = k_loop cs eig iks (?s2, eners @ [ener], eners_im @ [ener_im], Some M)"
    by (simp add: run bind_err_Inr d Let_def)
  have "\<exists>s' eners_im' mat'.
           k_loop cs eig iks (?s2, eners @ [ener], eners_im @ [ener_im], Some M)
             = Inr (s', (eners @ [ener]) @ map (\<lambda>ik. fst (diagonalise eig
                      (s0\<lparr>self_numeig := 2 * ?h\<rparr>)
                      (case hopfield_matrix cs s0 ik of Inl e \<Rightarrow> [] | Inr M \<Rightarrow> M))) iks,
                    eners_im', mat')"
  proof (rule Cons.IH)
    show "self_gme ?s2 = self_gme s0" "self_exc_list ?s2 = self_exc_list s0"
      "self_num_QWs ?s2 = self_num_QWs s0" "self_N_max ?s2 = self_N_max s0"
      "self_M_max ?s2 = self_M_max s0"
      using Cons.prems(1-5) by simp_all
    show "\<forall>ik\<in>set iks. exact_eig eig
               (mat_add (case hopfield_matrix cs s0 ik of Inl e \<Rightarrow> [] | Inr M \<Rightarrow> M)
                 (eye (length (case hopfield_matrix cs s0 ik of Inl e \<Rightarrow> [] | Inr M \<Rightarrow> M))))"
      using Cons.prems(6) by simp
  qed
  then show ?case
    unfolding step by (simp add: ener)
qed

lemma run_prepared_wf:
  assumes "self_exc_list self \<noteq> []" "0 < gme_numeig (self_gme self)"
    "0 < exc_numeig_ex (hd (self_exc_list self))"
  shows "self_exc_list (run_prepared self) \<noteq> []"
    "self_num_QWs (run_prepared self) = length (self_exc_list (run_prepared self))"
    "0 < self_N_max (run_prepared self)" "0 < self_M_max (run_prepared self)"
    "self_a (run_prepared self) = exc_a (hd (self_exc_list (run_prepared self)))"
  using assms by (simp_all add: run_prepared_def)

lemma run_eners:
  assumes "self_exc_list self \<noteq> []"
    and "0 < gme_numeig (self_gme self)"
    and "0 < exc_numeig_ex (hd (self_exc_list self))"
    and "kpoints \<noteq> []"
    and "\<forall>ik<length kpoints.
           exact_eig eig (mat_add (assembled cs self ik) (eye (length (assembled cs self ik))))"
  shows "\<exists>res. run cs eig self kpoints = Inr res
           \<and> self_eners res = map (\<lambda>ik. fst (diagonalise eig
                ((run_prepared self)\<lparr>self_numeig :=
                    2 * (gme_numeig (self_gme self)
                         + exc_numeig_ex (hd (self_exc_list self)) * length (self_exc_list self))\<rparr>)
                (assembled cs self ik))) [0..<length kpoints]"
proof -
  obtain exc0 rest where excs: "self_exc_list self = exc0 # rest"
    using assms(1) by (cases "self_exc_list self") auto
  define s0 where "s0 = run_prepared self"
  let ?s = "self\<lparr>self_kpoints := kpoints, self_eigvecs := [], self_fractions_ex := [],
      self_fractions_ph := [], self_num_QWs := Suc (length rest),
      self_N_max := gme_numeig (self_gme self), self_M_max := exc_numeig_ex exc0\<rparr>"
  let ?h = "self_N_max s0 + self_M_max s0 * self_num_QWs s0"
  note wf0 = run_prepared_wf [OF assms(1-3), folded s0_def]
  have inv: "self_gme ?s = self_gme s0" "self_exc_list ?s = self_exc_list s0"
    "self_num_QWs ?s = self_num_QWs s0" "self_N_max ?s = self_N_max s0"
    "self_M_max ?s = self_M_max s0"
    by (simp_all add: s0_def run_prepared_def excs)
  have ex: "\<forall>ik\<in>set [0..<length kpoints]. exact_eig eig
               (mat_add (case hopfield_matrix cs s0 ik of Inl e \<Rightarrow> [] | Inr M \<Rightarrow> M)
                 (eye (length (case hopfield_matrix cs s0 ik of Inl e \<Rightarrow> [] | Inr M \<Rightarrow> M))))"
    using assms(5) by (simp add: assembled_def s0_def)
  have acc: "results_ok 0 (2 * ?h) (?h - 1) [] [] (self_eigvecs ?s) (self_fractions_ex ?s)
               (self_fractions_ph ?s)"
    by (simp add: results_ok_def)
  have mv: "[0..<length kpoints] = [] \<longrightarrow> (None :: cmat option) \<noteq> None \<and> self_numeig ?s = 2 * ?h"
    using assms(4) by simp
  from k_loop_results [OF wf0 inv ex acc mv]
  obtain s' eners' eners_im' mat where
    loop: "k_loop cs eig [0..<length kpoints] (?s, [], [], None) = Inr (s', eners', eners_im', Some mat)"
    by blast
  from k_loop_eners [OF wf0 inv ex, of "[]" "[]" None] loop
  have eners: "eners' = map (\<lambda>ik. fst (diagonalise eig (s0\<lparr>self_numeig := 2 * ?h\<rparr>)
                  (case hopfield_matrix cs s0 ik of Inl e \<Rightarrow> [] | Inr M \<Rightarrow> M))) [0..<length kpoints]"
    by auto
  have "run cs eig self kpoints
          = Inr (s'\<lparr>self_eners := eners', self_eners_im := eners_im', self_mat := mat\<rparr>)"
    unfolding run_unfold [OF excs] loop by (simp add: bind_err_def)
  moreover have hh: "?h = gme_numeig (self_gme self)
                         + exc_numeig_ex (hd (self_exc_list self)) * length (self_exc_list self)"
    by (simp add: s0_def run_prepared_def)
  ultimately show ?thesis
    using eners [unfolded hh] by (simp add: assembled_def s0_def)
qed


text \<open>
  C7, as the code has it. In a run with zero oscillator strength in every quantum well (at
  least one quantum well, one photonic and one excitonic band, one k-point; exciton
  energies with a real part other than zero, by which the self-energy divides; a solver
  that is exact on the shifted matrix of every k-point), the coupling block \<open>C\<close> and the
  self-energy block \<open>D\<close> of every quantum well are zero at every k-point, \<^verbatim>\<open>run\<close> returns,
  and the energies it retains at a k-point are the \<open>N_max + M_max num_QWs - 1\<close> lowest among
  the bare energies, photonic and excitonic, and their negatives, that have a non-negative
  real part. With one photonic band these are \<open>M_max num_QWs\<close> energies of the decoupled
  spectrum of photon and excitons together, not the photonic energies alone.
\<close>

theorem decoupled_limit:
  assumes "self_exc_list self \<noteq> []"
    and "0 < gme_numeig (self_gme self)"
    and "0 < exc_numeig_ex (hd (self_exc_list self))"
    and "kpoints \<noteq> []"
    and "\<forall>exc\<in>set (self_exc_list self). \<forall>x\<in>set (exc_osc_str exc). Re x = 0"
    and "\<forall>exc\<in>set (self_exc_list self). \<forall>ik<length kpoints. \<forall>x\<in>set (exc_eners exc ik). Re x \<noteq> 0"
    and "\<forall>ik<length kpoints.
           exact_eig eig (mat_add (assembled cs self ik) (eye (length (assembled cs self ik))))"
  shows "\<exists>res. run cs eig self kpoints = Inr res
           \<and> length (self_eners res) = length kpoints
           \<and> (\<forall>ik<length kpoints.
                (\<forall>exc\<in>set (self_exc_list self).
                    calculate_C_D cs (run_prepared self) exc ik
                      = (zeros (gme_numeig (self_gme self)) (exc_numeig_ex (hd (self_exc_list self))),
                         zeros (gme_numeig (self_gme self)) (gme_numeig (self_gme self))))
                \<and> self_eners res ! ik
                    = lowest_energies
                        (gme_numeig (self_gme self)
                         + exc_numeig_ex (hd (self_exc_list self)) * length (self_exc_list self) - 1)
                        (bare_energies cs self ik @ map uminus (bare_energies cs self ik)))"
proof -
  define s0 where "s0 = run_prepared self"
  let ?N = "gme_numeig (self_gme self)" and ?M = "exc_numeig_ex (hd (self_exc_list self))"
  let ?Q = "length (self_exc_list self)"
  have f: "self_N_max s0 = ?N" "self_M_max s0 = ?M" "self_num_QWs s0 = ?Q"
    "self_exc_list s0 = self_exc_list self"
    by (simp_all add: s0_def run_prepared_def)
  note wf0 = run_prepared_wf [OF assms(1-3), folded s0_def]
  have zero: "\<forall>exc\<in>set (self_exc_list s0). \<forall>x\<in>set (exc_osc_str exc). Re x = 0"
    using assms(5) by (simp add: f)
  from run_eners [OF assms(1-4,7)] obtain res where
    run: "run cs eig self kpoints = Inr res"
    and eners: "self_eners res = map (\<lambda>ik. fst (diagonalise eig
                  (s0\<lparr>self_numeig := 2 * (?N + ?M * ?Q)\<rparr>) (assembled cs self ik)))
                [0..<length kpoints]"
    unfolding s0_def by blast
  have C: "calculate_C_D cs s0 exc ik = (zeros ?N ?M, zeros ?N ?N)"
    if "exc \<in> set (self_exc_list self)" for exc ik
    using that assms(5) by (simp add: calculate_C_D_eq C_block_zero D_block_zero f)
  have E: "self_eners res ! ik
             = lowest_energies (?N + ?M * ?Q - 1)
                 (bare_energies cs self ik @ map uminus (bare_energies cs self ik))"
    if ik: "ik < length kpoints" for ik
  proof -
    let ?P = "diag_phot_bare cs s0 ik" and ?X = "diag_exciton s0 ik"
    let ?A = "hopfield_blocks ?P (zeros ?N (?M * ?Q)) (zeros ?N ?N) ?X"
    have "hopfield_matrix cs s0 ik = Inr ?A"
      using decoupled_matrix [OF wf0(1-4) zero, of cs ik] by (simp add: f)
    then have A: "assembled cs self ik = ?A"
      by (simp add: assembled_def s0_def)
    have P: "shape ?N ?N ?P"
      using shape_diag_phot_bare [of s0 cs ik] by (simp add: f)
    have X: "shape (?M * ?Q) (?M * ?Q) ?X"
      using shape_diag_exciton [of s0 ik] by (simp add: f)
    have oP: "?P ! i ! j = 0" if "i < ?N" "j < ?N" "i \<noteq> j" for i j
      using that diag_phot_bare_offdiag [of i s0 j cs ik] by (simp add: f)
    have oX: "?X ! i ! j = 0" if "i < ?M * ?Q" "j < ?M * ?Q" "i \<noteq> j" for i j
      using that diag_exciton_offdiag [of i s0 j ik] by (simp add: f)
    have "exact_eig eig (mat_add (assembled cs self ik) (eye (length (assembled cs self ik))))"
      using assms(7) ik by blast
    then have ex: "exact_eig eig (mat_add ?A (eye (length ?A)))"
      by (simp only: A)
    have "mset (fst (eig_shifted eig ?A))
            = mset ((diagonal_of ?P @ diagonal_of ?X) @ map uminus (diagonal_of ?P @ diagonal_of ?X))"
      using P X assms(2) oP oX ex by (rule decoupled_spectrum)
    then have w: "mset (fst (eig_shifted eig ?A))
            = mset (bare_energies cs self ik @ map uminus (bare_energies cs self ik))"
      by (simp only: bare_energies_def s0_def)
    have h: "0 < ?N + ?M * ?Q"
      using assms(2) by simp
    have "fst (diagonalise eig (s0\<lparr>self_numeig := 2 * (?N + ?M * ?Q)\<rparr>) ?A)
            = lowest_energies (?N + ?M * ?Q - 1)
                (bare_energies cs self ik @ map uminus (bare_energies cs self ik))"
      using h _ w by (rule diagonalise_energies) simp
    then show ?thesis
      using ik by (simp add: eners A)
  qed
  have "length (self_eners res) = length kpoints"
    by (simp add: eners)
  then show ?thesis
    using run C E unfolding s0_def by blast
qed

lemma ex_bare_energies: "bare_energies ex_cs (ex_pol [ex_exc 0 2]) ik = [7, 2]"
  by (simp add: bare_energies_def ex_run_prepared ex_diag_phot_bare ex_decoupled_blocks
      diagonal_of_def)

lemma ex_lowest_energies: "lowest_energies 1 ([7, 2] @ map uminus [7, 2]) = [2]"
  by (simp add: lowest_energies_def)

lemma ex_decoupled_C_D:
  "calculate_C_D ex_cs (run_prepared (ex_pol [ex_exc 0 2])) (ex_exc 0 2) ik = ([[0]], [[0]])"
proof -
  note f = ex_pol_run_fields [of "[ex_exc 0 2]", unfolded ex_pol_run_a]
  show ?thesis
    by (simp add: calculate_C_D_eq ex_run_prepared ex_C_block [OF f(1-4)] ex_decoupled_blocks)
qed

theorem decoupled_limit_witness:
  "self_exc_list (ex_pol [ex_exc 0 2]) \<noteq> []
   \<and> gme_numeig (self_gme (ex_pol [ex_exc 0 2])) = 1
   \<and> exc_numeig_ex (hd (self_exc_list (ex_pol [ex_exc 0 2]))) = 1
   \<and> [(0, 0)] \<noteq> ([] :: (real \<times> real) list)
   \<and> exc_osc_str (ex_exc 0 2) = [0]
   \<and> exc_eners (ex_exc 0 2) 0 = [2]
   \<and> exact_eig eig_of_diag (mat_add (assembled ex_cs (ex_pol [ex_exc 0 2]) 0)
         (eye (length (assembled ex_cs (ex_pol [ex_exc 0 2]) 0))))
   \<and> (\<exists>res. run ex_cs eig_of_diag (ex_pol [ex_exc 0 2]) [(0, 0)] = Inr res
          \<and> length (self_eners res) = 1
          \<and> calculate_C_D ex_cs (run_prepared (ex_pol [ex_exc 0 2])) (ex_exc 0 2) 0
               = (zeros 1 1, zeros 1 1)
          \<and> self_eners res ! 0
               = lowest_energies 1 (bare_energies ex_cs (ex_pol [ex_exc 0 2]) 0
                   @ map uminus (bare_energies ex_cs (ex_pol [ex_exc 0 2]) 0))
          \<and> self_eners res ! 0 = [2])
   \<and> bare_energies ex_cs (ex_pol [ex_exc 0 2]) 0 = [7, 2]"
proof -
  let ?self = "ex_pol [ex_exc 0 2]"
  have v: "self_exc_list ?self = [ex_exc 0 2]" "gme_numeig (self_gme ?self) = 1"
    "exc_numeig_ex (hd (self_exc_list ?self)) = 1" "exc_osc_str (ex_exc 0 2) = [0]"
    "exc_eners (ex_exc 0 2) 0 = [2]" "\<And>ik. exc_eners (ex_exc 0 2) ik = [2]"
    "exc_numeig_ex (ex_exc 0 2) = 1"
    by (simp_all add: ex_pol_def ex_gme_def ex_exc_def)
  have h: "self_exc_list ?self \<noteq> []" "0 < gme_numeig (self_gme ?self)"
    "0 < exc_numeig_ex (hd (self_exc_list ?self))" "[(0, 0)] \<noteq> ([] :: (real \<times> real) list)"
    "\<forall>exc\<in>set (self_exc_list ?self). \<forall>x\<in>set (exc_osc_str exc). Re x = 0"
    "\<forall>exc\<in>set (self_exc_list ?self). \<forall>ik<length [(0 :: real, 0 :: real)].
        \<forall>x\<in>set (exc_eners exc ik). Re x \<noteq> 0"
    "\<forall>ik<length [(0 :: real, 0 :: real)].
        exact_eig eig_of_diag (mat_add (assembled ex_cs ?self ik)
          (eye (length (assembled ex_cs ?self ik))))"
    using ex_decoupled_exact by (simp_all add: v)
  from decoupled_limit [OF h] obtain res where
    run: "run ex_cs eig_of_diag ?self [(0, 0)] = Inr res"
    and len: "length (self_eners res) = length [(0 :: real, 0 :: real)]"
    and all: "\<forall>ik<length [(0 :: real, 0 :: real)].
                (\<forall>exc\<in>set (self_exc_list ?self).
                    calculate_C_D ex_cs (run_prepared ?self) exc ik
                      = (zeros (gme_numeig (self_gme ?self)) (exc_numeig_ex (hd (self_exc_list ?self))),
                         zeros (gme_numeig (self_gme ?self)) (gme_numeig (self_gme ?self))))
                \<and> self_eners res ! ik
                    = lowest_energies
                        (gme_numeig (self_gme ?self)
                         + exc_numeig_ex (hd (self_exc_list ?self)) * length (self_exc_list ?self) - 1)
                        (bare_energies ex_cs ?self ik @ map uminus (bare_energies ex_cs ?self ik))"
    by blast
  have C: "calculate_C_D ex_cs (run_prepared ?self) (ex_exc 0 2) 0 = (zeros 1 1, zeros 1 1)"
    using all by (simp add: v)
  have E: "self_eners res ! 0
             = lowest_energies 1 (bare_energies ex_cs ?self 0 @ map uminus (bare_energies ex_cs ?self 0))"
    using all by (simp add: v)
  then have "self_eners res ! 0 = [2]"
    by (simp only: ex_bare_energies ex_lowest_energies)
  moreover have "length (self_eners res) = 1"
    using len by simp
  ultimately show ?thesis
    using run C E v(2-5) h(1,4) ex_decoupled_exact [of 0] ex_bare_energies [of 0] by blast
qed

text \<open>
  The claim as it is worded fails: with one photonic band of energy 7 and one exciton of
  energy 2 and oscillator strength zero, \<open>C\<close> and \<open>D\<close> are zero, the solver is exact, and
  the one energy that \<^verbatim>\<open>run\<close> retains is the exciton energy 2, not the photonic energy 7.
\<close>

theorem decoupled_limit_counterexample:
  "gme_numeig (self_gme (ex_pol [ex_exc 0 2])) = 1
   \<and> exc_osc_str (ex_exc 0 2) = [0]
   \<and> calculate_C_D ex_cs (run_prepared (ex_pol [ex_exc 0 2])) (ex_exc 0 2) 0 = ([[0]], [[0]])
   \<and> exact_eig eig_of_diag (mat_add (assembled ex_cs (ex_pol [ex_exc 0 2]) 0)
         (eye (length (assembled ex_cs (ex_pol [ex_exc 0 2]) 0))))
   \<and> diagonal_of (diag_phot_bare ex_cs (run_prepared (ex_pol [ex_exc 0 2])) 0) = [7]
   \<and> map_sum id self_eners (run ex_cs eig_of_diag (ex_pol [ex_exc 0 2]) [(0, 0)]) = Inr [[2]]
   \<and> map_sum id self_eners (run ex_cs eig_of_diag (ex_pol [ex_exc 0 2]) [(0, 0)])
        \<noteq> Inr [map Re (diagonal_of (diag_phot_bare ex_cs (run_prepared (ex_pol [ex_exc 0 2])) 0))]"
proof -
  have "gme_numeig (self_gme (ex_pol [ex_exc 0 2])) = 1" "exc_osc_str (ex_exc 0 2) = [0]"
    by (simp_all add: ex_pol_def ex_gme_def ex_exc_def)
  moreover have d: "diagonal_of (diag_phot_bare ex_cs (run_prepared (ex_pol [ex_exc 0 2])) 0) = [7]"
    by (simp add: ex_run_prepared ex_diag_phot_bare diagonal_of_def)
  moreover have r: "map_sum id self_eners (run ex_cs eig_of_diag (ex_pol [ex_exc 0 2]) [(0, 0)])
                   = Inr [[2]]"
    by (simp add: ex_decoupled_run)
  moreover have "map_sum id self_eners (run ex_cs eig_of_diag (ex_pol [ex_exc 0 2]) [(0, 0)])
        \<noteq> Inr [map Re (diagonal_of (diag_phot_bare ex_cs (run_prepared (ex_pol [ex_exc 0 2])) 0))]"
    unfolding r d by simp
  ultimately show ?thesis
    using ex_decoupled_C_D [of 0] ex_decoupled_exact [of 0] by blast
qed

end
